theory Spec2Isabelle
  imports Main
begin

section \<open>The filesystem as the scanner sees it\<close>

text \<open>
  \<^verbatim>\<open>plum.py\<close> reads the filesystem through \<^verbatim>\<open>os.scandir\<close>, \<^verbatim>\<open>DirEntry.is_dir\<close>,
  \<^verbatim>\<open>os.walk\<close> and the \<^verbatim>\<open>os.path\<close> predicates. A filesystem state is a finite tree of
  nodes; a node stands for one path and records the outcome of each system call the
  program can make on that path:

  \<^item> \<open>d_type\<close>: the type of the directory entry itself, as \<^verbatim>\<open>readdir\<close> reports it
    (a symbolic link is \<open>S_IFLNK\<close> whatever it points to);
  \<^item> \<open>lstat_err\<close>: the error of \<^verbatim>\<open>os.lstat\<close>, if it fails (when it succeeds it reports
    \<open>d_type\<close>);
  \<^item> \<open>stat\<close>: the outcome of \<^verbatim>\<open>os.stat\<close>, which follows symbolic links: an error, or the
    file type and \<^verbatim>\<open>st_size\<close>;
  \<^item> \<open>scandir\<close>: the outcome of \<^verbatim>\<open>os.scandir\<close>, which follows symbolic links too:
    \<open>None\<close> when it raises \<^verbatim>\<open>OSError\<close> (permission denied, not a directory, I/O error),
    otherwise the entries in iteration order, each name with the node of its path.

  The fields are independent, because the calls fail independently: in a directory
  that may be read but not searched, the listing succeeds and every \<^verbatim>\<open>stat\<close> of a child
  fails.
\<close>

datatype oserror = FileNotFoundError | PermissionError | OSError

datatype ftype = S_IFREG | S_IFDIR | S_IFLNK | S_IFSOCK

datatype node = Node
  (d_type: ftype)
  (lstat_err: "oserror option")
  (stat: "oserror + ftype \<times> nat")
  (scandir: "(string \<times> node) list option")

text \<open>
  \<^verbatim>\<open>os.path.join\<close> for two components (\<^verbatim>\<open>posixpath\<close>); \<^verbatim>\<open>DirEntry.path\<close> is
  \<^verbatim>\<open>os.path.join(scandir_path, entry.name)\<close>.
\<close>

definition os_path_join :: "string \<Rightarrow> string \<Rightarrow> string" where
  "os_path_join a b =
     (if b \<noteq> [] \<and> hd b = CHR ''/'' then b
      else if a = [] \<or> last a = CHR ''/'' then a @ b
      else a @ ''/'' @ b)"

text \<open>
  \<^verbatim>\<open>os.path.isfile\<close>, \<^verbatim>\<open>os.path.isdir\<close> and \<^verbatim>\<open>os.path.islink\<close> answer \<^verbatim>\<open>False\<close> when the
  underlying \<^verbatim>\<open>stat\<close> (\<^verbatim>\<open>lstat\<close> for \<^verbatim>\<open>islink\<close>) fails; \<^verbatim>\<open>os.path.getsize\<close> raises.
\<close>

definition os_path_isfile :: "node \<Rightarrow> bool" where
  "os_path_isfile n = (case stat n of Inl e \<Rightarrow> False | Inr (t, sz) \<Rightarrow> t = S_IFREG)"

definition os_path_isdir :: "node \<Rightarrow> bool" where
  "os_path_isdir n = (case stat n of Inl e \<Rightarrow> False | Inr (t, sz) \<Rightarrow> t = S_IFDIR)"

definition os_path_islink :: "node \<Rightarrow> bool" where
  "os_path_islink n = (case lstat_err n of Some e \<Rightarrow> False | None \<Rightarrow> d_type n = S_IFLNK)"

definition os_path_getsize :: "node \<Rightarrow> oserror + nat" where
  "os_path_getsize n = (case stat n of Inl e \<Rightarrow> Inl e | Inr (t, sz) \<Rightarrow> Inr sz)"

text \<open>
  \<^verbatim>\<open>DirEntry.is_dir()\<close>: answered from \<open>d_type\<close> without a system call, unless the
  entry is a symbolic link; then \<^verbatim>\<open>stat\<close> is called, \<^verbatim>\<open>FileNotFoundError\<close> gives
  \<^verbatim>\<open>False\<close> and any other \<^verbatim>\<open>OSError\<close> is raised.
\<close>

definition is_dir :: "node \<Rightarrow> oserror + bool" where
  "is_dir n =
     (if d_type n = S_IFLNK then
        (case stat n of
           Inl FileNotFoundError \<Rightarrow> Inr False
         | Inl e \<Rightarrow> Inl e
         | Inr (t, sz) \<Rightarrow> Inr (t = S_IFDIR))
      else Inr (d_type n = S_IFDIR))"

text \<open>
  \<^verbatim>\<open>os.walk(top)\<close> with its defaults (top-down, \<^verbatim>\<open>onerror=None\<close>,
  \<^verbatim>\<open>followlinks=False\<close>): a directory whose \<^verbatim>\<open>scandir\<close> fails is skipped silently; an
  entry whose \<^verbatim>\<open>is_dir()\<close> raises counts as a non-directory; the triple of the directory
  comes first, then the walks of its subdirectories that are not symbolic links. The
  file names of a triple are kept with the nodes of their paths, which is what
  \<^verbatim>\<open>os.path.join(dirpath, f)\<close> resolves to.
\<close>

definition walk_is_dir :: "node \<Rightarrow> bool" where
  "walk_is_dir n = (case is_dir n of Inl e \<Rightarrow> False | Inr b \<Rightarrow> b)"

fun os_walk :: "string \<Rightarrow> node \<Rightarrow> (string \<times> string list \<times> (string \<times> node) list) list" where
  "os_walk dirpath (Node t l s None) = []"
| "os_walk dirpath (Node t l s (Some ents)) =
     (dirpath,
      map fst (filter (\<lambda>(nm, c). walk_is_dir c) ents),
      filter (\<lambda>(nm, c). \<not> walk_is_dir c) ents)
     # concat (map (\<lambda>(nm, c). if os_path_islink c then []
                               else os_walk (os_path_join dirpath nm) c)
                   (filter (\<lambda>(nm, c). walk_is_dir c) ents))"


section \<open>The size of a file or directory: \<^verbatim>\<open>get_size\<close>\<close>

text \<open>
  The inner loop \<^verbatim>\<open>for f in filenames\<close> and the outer loop over the triples of the
  walk. \<^verbatim>\<open>os.path.getsize\<close> raising ends both loops: the exception leaves the
  \<^verbatim>\<open>try\<close> block.
\<close>

fun sum_filenames :: "(string \<times> node) list \<Rightarrow> nat \<Rightarrow> oserror + nat" where
  "sum_filenames [] total_size = Inr total_size"
| "sum_filenames ((f, fp) # filenames) total_size =
     (if \<not> os_path_islink fp then
        (case os_path_getsize fp of
           Inl e \<Rightarrow> Inl e
         | Inr sz \<Rightarrow> sum_filenames filenames (total_size + sz))
      else sum_filenames filenames total_size)"

fun sum_walk ::
  "(string \<times> string list \<times> (string \<times> node) list) list \<Rightarrow> nat \<Rightarrow> oserror + nat" where
  "sum_walk [] total_size = Inr total_size"
| "sum_walk ((dirpath, dirnames, filenames) # rest) total_size =
     (case sum_filenames filenames total_size of
        Inl e \<Rightarrow> Inl e
      | Inr total_size' \<Rightarrow> sum_walk rest total_size')"

text \<open>
  The body of the \<^verbatim>\<open>try\<close> block: \<open>Inl\<close> is an exception raised in it, \<open>Inr None\<close> the
  implicit \<^verbatim>\<open>return None\<close> when neither branch of the \<^verbatim>\<open>if\<close> applies.
\<close>

definition get_size_try :: "string \<Rightarrow> node \<Rightarrow> oserror + nat option" where
  "get_size_try path n =
     (if os_path_isfile n then
        (case os_path_getsize n of Inl e \<Rightarrow> Inl e | Inr sz \<Rightarrow> Inr (Some sz))
      else if os_path_isdir n then
        (case sum_walk (os_walk path n) 0 of
           Inl e \<Rightarrow> Inl e
         | Inr total_size \<Rightarrow> Inr (Some total_size))
      else Inr None)"

text \<open>\<^verbatim>\<open>except (OSError, PermissionError): return None\<close>\<close>

definition get_size :: "string \<Rightarrow> node \<Rightarrow> nat option" where
  "get_size path n = (case get_size_try path n of Inl e \<Rightarrow> None | Inr r \<Rightarrow> r)"


section \<open>The scanner: \<^verbatim>\<open>list_files_and_folders_recursive\<close>\<close>

text \<open>
  The dictionaries the scanner builds. \<open>e_size\<close> is \<open>None\<close> for Python's \<^verbatim>\<open>None\<close>;
  \<open>e_contents\<close> is \<open>None\<close> when the key \<^verbatim>\<open>'contents'\<close> is absent (file entries).
\<close>

datatype entry_type = File | Directory

datatype entry = Entry
  (e_name: string)
  (e_path: string)
  (e_type: entry_type)
  (e_size: "nat option")
  (e_contents: "entry list option")

text \<open>
  \<open>scan_loop\<close> is the \<^verbatim>\<open>for entry in os.scandir(root)\<close> loop, with the list
  \<^verbatim>\<open>structure\<close> built so far. Both \<^verbatim>\<open>os.scandir\<close> raising and \<^verbatim>\<open>entry.is_dir()\<close>
  raising are caught by \<^verbatim>\<open>except (OSError, PermissionError): pass\<close>, after which
  \<^verbatim>\<open>structure\<close> is returned as it is.
\<close>

fun list_files_and_folders_recursive :: "string \<Rightarrow> node \<Rightarrow> bool \<Rightarrow> entry list"
  and scan_loop :: "string \<Rightarrow> bool \<Rightarrow> (string \<times> node) list \<Rightarrow> entry list \<Rightarrow> entry list"
where
  "list_files_and_folders_recursive root (Node t l s None) folders_only = []"
| "list_files_and_folders_recursive root (Node t l s (Some ents)) folders_only =
     scan_loop root folders_only ents []"
| "scan_loop root folders_only [] structure = structure"
| "scan_loop root folders_only ((nm, c) # rest) structure =
     (case is_dir c of
        Inl e \<Rightarrow> structure
      | Inr True \<Rightarrow>
          scan_loop root folders_only rest
            (structure @
             [Entry nm (os_path_join root nm) Directory
                (get_size (os_path_join root nm) c)
                (Some (list_files_and_folders_recursive (os_path_join root nm) c folders_only))])
      | Inr False \<Rightarrow>
          if \<not> folders_only then
            scan_loop root folders_only rest
              (structure @
               [Entry nm (os_path_join root nm) File
                  (get_size (os_path_join root nm) c) None])
          else scan_loop root folders_only rest structure)"


section \<open>The transformer: \<^verbatim>\<open>transform_for_d3_sunburst\<close>\<close>

text \<open>
  An output dictionary has the key \<^verbatim>\<open>"name"\<close> and may have the keys \<^verbatim>\<open>"children"\<close> and
  \<^verbatim>\<open>"value"\<close>; \<open>None\<close> is an absent key.
\<close>

datatype vnode = VNode
  (v_name: string)
  (v_children: "vnode list option")
  (v_value: "nat option")

text \<open>\<^verbatim>\<open>children_node["name"] = item['path']\<close>\<close>

fun set_name :: "vnode \<Rightarrow> string \<Rightarrow> vnode" where
  "set_name (VNode n c v) n' = VNode n' c v"

text \<open>
  \<open>transform_loop\<close> is the \<^verbatim>\<open>for item in data\<close> loop with \<^verbatim>\<open>node["children"]\<close> as built
  so far. The test \<^verbatim>\<open>'contents' in item and item['contents']\<close> holds exactly for a present,
  non-empty list; \<^verbatim>\<open>item.get('size', 0) or 0\<close> turns \<^verbatim>\<open>None\<close> and \<open>0\<close> into \<open>0\<close>.
\<close>

fun transform_for_d3_sunburst :: "entry list \<Rightarrow> string \<Rightarrow> vnode"
  and transform_loop :: "entry list \<Rightarrow> vnode list \<Rightarrow> vnode list"
where
  "transform_for_d3_sunburst data parent_name =
     VNode parent_name (Some (transform_loop data [])) None"
| "transform_loop [] children = children"
| "transform_loop (Entry nm path ty sz (Some (c # cs)) # rest) children =
     transform_loop rest
       (children @ [set_name (transform_for_d3_sunburst (c # cs) path) path])"
| "transform_loop (Entry nm path ty sz cont # rest) children =
     transform_loop rest
       (children @
        [VNode path None (Some (case sz of None \<Rightarrow> 0 | Some k \<Rightarrow> if k = 0 then 0 else k))])"


section \<open>Exceptions that no handler catches\<close>

text \<open>
  The handlers of \<^verbatim>\<open>plum.py\<close> catch \<^verbatim>\<open>OSError\<close> only. Two exceptions leave the scanner
  and the transformer and reach their caller:

  \<^item> \<^verbatim>\<open>ValueError\<close>: \<^verbatim>\<open>os.scandir\<close> raises it, before any system call, for a path with an
    embedded NUL character;
  \<^item> \<^verbatim>\<open>RecursionError\<close>: both functions call themselves once for each level of
    directories, and the interpreter refuses a call beyond its recursion limit.

  The functions above give the value that is built; the functions below run the same
  code with these two exceptions. Their first argument is the number of nested
  activations of the function that the recursion limit still allows when it is
  called: a call with none left raises, and each recursive call has one less. The
  frames of the calls made in between (\<^verbatim>\<open>get_size\<close>, \<^verbatim>\<open>os.walk\<close>, which walks with its
  own stack since CPython 3.12) are not counted.
\<close>

datatype pyexc = ValueError | RecursionError

definition embedded_null :: "string \<Rightarrow> bool" where
  "embedded_null p = (CHR 0x00 \<in> set p)"

text \<open>
  The scanner: \<^verbatim>\<open>os.scandir(root)\<close> is the first call of the \<^verbatim>\<open>try\<close> block; an exception
  of the recursive call inside the dictionary display passes through the handler of
  every enclosing activation.
\<close>

fun list_files_and_folders_recursive_run ::
    "nat \<Rightarrow> string \<Rightarrow> node \<Rightarrow> bool \<Rightarrow> pyexc + entry list"
  and scan_loop_run ::
    "nat \<Rightarrow> string \<Rightarrow> bool \<Rightarrow> (string \<times> node) list \<Rightarrow> entry list \<Rightarrow> pyexc + entry list"
where
  "list_files_and_folders_recursive_run 0 root n folders_only = Inl RecursionError"
| "list_files_and_folders_recursive_run (Suc k) root n folders_only =
     (if embedded_null root then Inl ValueError
      else (case scandir n of
              None \<Rightarrow> Inr []
            | Some ents \<Rightarrow> scan_loop_run k root folders_only ents []))"
| "scan_loop_run k root folders_only [] structure = Inr structure"
| "scan_loop_run k root folders_only ((nm, c) # rest) structure =
     (case is_dir c of
        Inl e \<Rightarrow> Inr structure
      | Inr True \<Rightarrow>
          (case list_files_and_folders_recursive_run k (os_path_join root nm) c folders_only of
             Inl x \<Rightarrow> Inl x
           | Inr contents \<Rightarrow>
               scan_loop_run k root folders_only rest
                 (structure @
                  [Entry nm (os_path_join root nm) Directory
                     (get_size (os_path_join root nm) c) (Some contents)]))
      | Inr False \<Rightarrow>
          if \<not> folders_only then
            scan_loop_run k root folders_only rest
              (structure @
               [Entry nm (os_path_join root nm) File
                  (get_size (os_path_join root nm) c) None])
          else scan_loop_run k root folders_only rest structure)"

text \<open>The transformer: the recursive call is made before the node is appended.\<close>

fun transform_for_d3_sunburst_run :: "nat \<Rightarrow> entry list \<Rightarrow> string \<Rightarrow> pyexc + vnode"
  and transform_loop_run :: "nat \<Rightarrow> entry list \<Rightarrow> vnode list \<Rightarrow> pyexc + vnode list"
where
  "transform_for_d3_sunburst_run 0 data parent_name = Inl RecursionError"
| "transform_for_d3_sunburst_run (Suc k) data parent_name =
     (case transform_loop_run k data [] of
        Inl x \<Rightarrow> Inl x
      | Inr children \<Rightarrow> Inr (VNode parent_name (Some children) None))"
| "transform_loop_run k [] children = Inr children"
| "transform_loop_run k (Entry nm path ty sz (Some (c # cs)) # rest) children =
     (case transform_for_d3_sunburst_run k (c # cs) path of
        Inl x \<Rightarrow> Inl x
      | Inr children_node \<Rightarrow>
          transform_loop_run k rest (children @ [set_name children_node path]))"
| "transform_loop_run k (Entry nm path ty sz cont # rest) children =
     transform_loop_run k rest
       (children @
        [VNode path None (Some (case sz of None \<Rightarrow> 0 | Some j \<Rightarrow> if j = 0 then 0 else j))])"


section \<open>Predicates of the statements\<close>

text \<open>
  The invariant of an output tree: at every node exactly one of the keys
  \<^verbatim>\<open>"children"\<close> and \<^verbatim>\<open>"value"\<close> is present.
\<close>

fun exactly_one :: "vnode \<Rightarrow> bool" where
  "exactly_one (VNode n c v) =
     ((c = None) \<noteq> (v = None)
      \<and> (case c of None \<Rightarrow> True | Some kids \<Rightarrow> list_all exactly_one kids))"

text \<open>Scanner output that holds directory entries only, at every depth.\<close>

fun dirs_only :: "entry \<Rightarrow> bool" where
  "dirs_only (Entry nm p ty sz cont) =
     (ty = Directory \<and> (case cont of None \<Rightarrow> True | Some cs \<Rightarrow> list_all dirs_only cs))"

text \<open>Scanner output with the file entries removed at every depth, nothing else changed.\<close>

fun prune_entry :: "entry \<Rightarrow> entry" where
  "prune_entry (Entry nm p ty sz cont) =
     Entry nm p ty sz
       (case cont of
          None \<Rightarrow> None
        | Some cs \<Rightarrow> Some (map prune_entry (filter (\<lambda>e. e_type e = Directory) cs)))"

definition prune_files :: "entry list \<Rightarrow> entry list" where
  "prune_files xs = map prune_entry (filter (\<lambda>e. e_type e = Directory) xs)"

text \<open>
  The directories of a scanner output with the size recorded for each: path and
  \<^verbatim>\<open>size\<close> of every directory entry, in the order of the output, parents first.
\<close>

fun entry_dir_sizes :: "entry \<Rightarrow> (string \<times> nat option) list" where
  "entry_dir_sizes (Entry nm p ty sz cont) =
     (if ty = Directory then [(p, sz)] else [])
     @ (case cont of None \<Rightarrow> [] | Some cs \<Rightarrow> concat (map entry_dir_sizes cs))"

definition dir_sizes :: "entry list \<Rightarrow> (string \<times> nat option) list" where
  "dir_sizes xs = concat (map entry_dir_sizes xs)"

text \<open>
  A tree of regular files and directories only, on which every call succeeds: no
  symbolic link, no other file type, no failing \<^verbatim>\<open>stat\<close>, \<^verbatim>\<open>lstat\<close> or listing.
\<close>

fun regular_tree :: "node \<Rightarrow> bool" where
  "regular_tree (Node t l s None) =
     (t = S_IFREG \<and> l = None \<and> (case s of Inl e \<Rightarrow> False | Inr (ty, sz) \<Rightarrow> ty = S_IFREG))"
| "regular_tree (Node t l s (Some ents)) =
     (t = S_IFDIR \<and> l = None \<and> (case s of Inl e \<Rightarrow> False | Inr (ty, sz) \<Rightarrow> ty = S_IFDIR)
      \<and> list_all (\<lambda>(nm, c). regular_tree c) ents)"

text \<open>
  The sum of the \<^verbatim>\<open>st_size\<close> of all files below a node (of the node itself when it is
  a file); the \<^verbatim>\<open>st_size\<close> of a directory is not part of it.
\<close>

fun tree_size :: "node \<Rightarrow> nat" where
  "tree_size (Node t l s None) = (case s of Inl e \<Rightarrow> 0 | Inr (ty, sz) \<Rightarrow> sz)"
| "tree_size (Node t l s (Some ents)) = sum_list (map (\<lambda>(nm, c). tree_size c) ents)"

text \<open>The directories below a node with their paths, parents first.\<close>

fun subdirs :: "string \<Rightarrow> node \<Rightarrow> (string \<times> node) list" where
  "subdirs root (Node t l s None) = []"
| "subdirs root (Node t l s (Some ents)) =
     concat (map (\<lambda>(nm, c). if d_type c = S_IFDIR
                             then (os_path_join root nm, c) # subdirs (os_path_join root nm) c
                             else []) ents)"

text \<open>
  The same tree with every listing that fails replaced by an empty listing, so that
  every directory that cannot be read is an empty directory instead.
\<close>

fun unreadable_as_empty :: "node \<Rightarrow> node" where
  "unreadable_as_empty (Node t l s None) = Node t l s (Some [])"
| "unreadable_as_empty (Node t l s (Some ents)) =
     Node t l s (Some (map (\<lambda>(nm, c). (nm, unreadable_as_empty c)) ents))"

text \<open>
  The number of nested activations a scan needs: one for the directory itself, and
  as many more as the deepest chain of directories the loop enters. The entries after
  one whose \<^verbatim>\<open>is_dir()\<close> raises are not reached.
\<close>

fun scan_frames :: "node \<Rightarrow> nat"
  and scan_loop_frames :: "(string \<times> node) list \<Rightarrow> nat"
where
  "scan_frames (Node t l s None) = 1"
| "scan_frames (Node t l s (Some ents)) = Suc (scan_loop_frames ents)"
| "scan_loop_frames [] = 0"
| "scan_loop_frames ((nm, c) # rest) =
     (case is_dir c of
        Inl e \<Rightarrow> 0
      | Inr True \<Rightarrow> max (scan_frames c) (scan_loop_frames rest)
      | Inr False \<Rightarrow> scan_loop_frames rest)"

text \<open>
  No name of any listing has a NUL character; \<^verbatim>\<open>readdir\<close> returns no such name.
\<close>

fun names_without_null :: "node \<Rightarrow> bool" where
  "names_without_null (Node t l s None) = True"
| "names_without_null (Node t l s (Some ents)) =
     list_all (\<lambda>(nm, c). \<not> embedded_null nm \<and> names_without_null c) ents"

text \<open>
  The number of nested activations a transformation needs: one for the sequence
  itself, and as many more as the deepest chain of entries with non-empty contents.
\<close>

fun transform_frames :: "entry list \<Rightarrow> nat"
  and transform_loop_frames :: "entry list \<Rightarrow> nat"
where
  "transform_frames data = Suc (transform_loop_frames data)"
| "transform_loop_frames [] = 0"
| "transform_loop_frames (Entry nm path ty sz (Some (c # cs)) # rest) =
     max (transform_frames (c # cs)) (transform_loop_frames rest)"
| "transform_loop_frames (Entry nm path ty sz cont # rest) = transform_loop_frames rest"

text \<open>Some entry of a listing makes \<^verbatim>\<open>entry.is_dir()\<close> raise.\<close>

definition raises_is_dir :: "(string \<times> node) list \<Rightarrow> bool" where
  "raises_is_dir ents = list_ex (\<lambda>(nm, c). isl (is_dir c)) ents"


section \<open>Example filesystems\<close>

text \<open>A symbolic link whose target does not exist, and a socket.\<close>

definition broken_link :: node where
  "broken_link = Node S_IFLNK None (Inl FileNotFoundError) None"

definition socket_node :: node where
  "socket_node = Node S_IFSOCK None (Inr (S_IFSOCK, 0)) None"

text \<open>
  A regular file of a given size and a directory with a given listing, all calls
  succeeding; a directory that may not be listed; a file inside a directory that may
  be read but not searched, so that its name is listed and \<^verbatim>\<open>stat\<close> and \<^verbatim>\<open>lstat\<close> on
  it are denied.
\<close>

definition plain_file :: "nat \<Rightarrow> node" where
  "plain_file sz = Node S_IFREG None (Inr (S_IFREG, sz)) None"

definition plain_dir :: "(string \<times> node) list \<Rightarrow> node" where
  "plain_dir ents = Node S_IFDIR None (Inr (S_IFDIR, 4096)) (Some ents)"

definition unreadable_dir :: node where
  "unreadable_dir = Node S_IFDIR None (Inr (S_IFDIR, 4096)) None"

definition unstatable_file :: node where
  "unstatable_file = Node S_IFREG (Some PermissionError) (Inl PermissionError) None"

text \<open>
  A directory inside a directory that may be read but not searched: it is listed as
  a directory, and \<^verbatim>\<open>stat\<close>, \<^verbatim>\<open>lstat\<close> and listing it are denied. A symbolic link
  whose target lies in a directory that may not be searched: \<^verbatim>\<open>lstat\<close> succeeds and
  \<^verbatim>\<open>stat\<close> is denied.
\<close>

definition unstatable_dir :: node where
  "unstatable_dir = Node S_IFDIR (Some PermissionError) (Inl PermissionError) None"

definition denied_link :: node where
  "denied_link = Node S_IFLNK None (Inl PermissionError) None"

text \<open>
  The tree \<^verbatim>\<open>a.txt\<close> (10 bytes), \<^verbatim>\<open>b/\<close> (empty), \<^verbatim>\<open>c/d.txt\<close> (5 bytes), \<^verbatim>\<open>e.txt\<close>
  (3 bytes); a tree with a directory that may not be listed between two siblings; a
  tree with a directory \<^verbatim>\<open>d/\<close> that may be read but not searched, holding a file
  \<^verbatim>\<open>f\<close>, next to a file \<^verbatim>\<open>g\<close> (7 bytes).
\<close>

definition c_tree :: node where
  "c_tree = plain_dir [(''d.txt'', plain_file 5)]"

definition regular_root :: node where
  "regular_root =
     plain_dir [(''a.txt'', plain_file 10), (''b'', plain_dir []), (''c'', c_tree),
                (''e.txt'', plain_file 3)]"

definition locked_root :: node where
  "locked_root =
     plain_dir [(''a.txt'', plain_file 10), (''locked'', unreadable_dir), (''c'', c_tree)]"

definition d_tree :: node where
  "d_tree = plain_dir [(''f'', unstatable_file)]"

definition unsearchable_root :: node where
  "unsearchable_root = plain_dir [(''d'', d_tree), (''g'', plain_file 7)]"

text \<open>
  A root path with an embedded NUL character. A listing in which a symbolic link
  with a denied target comes before a directory and a second directory that cannot be
  listed, and one in which it comes between two files.
\<close>

definition null_path :: string where
  "null_path = ''/r'' @ [CHR 0x00] @ ''x''"

definition blocked_root :: node where
  "blocked_root =
     plain_dir [(''locked'', unreadable_dir), (''lnk'', denied_link), (''c'', c_tree),
                (''locked2'', unreadable_dir)]"

definition denied_link_root :: node where
  "denied_link_root =
     plain_dir [(''a.txt'', plain_file 10), (''lnk'', denied_link), (''g'', plain_file 7)]"

text \<open>
  A chain of \<open>k\<close> nested directories with one file of 1 byte at the bottom, and the
  entries that describe such a chain below the path \<open>p\<close>.
\<close>

fun deep_dir :: "nat \<Rightarrow> node" where
  "deep_dir 0 = plain_dir [(''f'', plain_file 1)]"
| "deep_dir (Suc k) = plain_dir [(''d'', deep_dir k)]"

fun nested_entries :: "string \<Rightarrow> nat \<Rightarrow> entry list" where
  "nested_entries p 0 = [Entry ''f'' (os_path_join p ''f'') File (Some 1) None]"
| "nested_entries p (Suc k) =
     [Entry ''d'' (os_path_join p ''d'') Directory (Some 1)
        (Some (nested_entries (os_path_join p ''d'') k))]"

text \<open>A directory that may be read but not searched, holding one subdirectory.\<close>

definition h_tree :: node where
  "h_tree = plain_dir [(''sub'', unstatable_dir)]"

text \<open>
  Scanner output for a root \<^verbatim>\<open>/r\<close> holding a file, an empty directory, a directory with
  one file, and an empty directory whose size could not be read.
\<close>

definition a_txt :: entry where
  "a_txt = Entry ''a.txt'' ''/r/a.txt'' File (Some 10) None"

definition b_dir :: entry where
  "b_dir = Entry ''b'' ''/r/b'' Directory (Some 0) (Some [])"

definition d_txt :: entry where
  "d_txt = Entry ''d.txt'' ''/r/c/d.txt'' File (Some 5) None"

definition c_dir :: entry where
  "c_dir = Entry ''c'' ''/r/c'' Directory (Some 5) (Some [d_txt])"

definition u_dir :: entry where
  "u_dir = Entry ''u'' ''/r/u'' Directory None (Some [])"


section \<open>Properties of \<^verbatim>\<open>get_size\<close>\<close>

text \<open>
  C9. For a path that is neither a regular file nor a directory (a broken symbolic
  link, a socket), no branch of the type dispatch applies: nothing is raised inside
  the \<^verbatim>\<open>try\<close> block, the function falls off its end and returns \<^verbatim>\<open>None\<close>, which is also
  what the exception handler returns whenever the block does raise.
\<close>

theorem get_size_neither_file_nor_dir:
  "(\<not> os_path_isfile n \<and> \<not> os_path_isdir n \<longrightarrow>
      get_size_try path n = Inr None \<and> get_size path n = None)
   \<and> (get_size_try path n = Inl e \<longrightarrow> get_size path n = None)"
  by (simp add: get_size_def get_size_try_def)

theorem get_size_neither_file_nor_dir_witness:
  "\<not> os_path_isfile broken_link \<and> \<not> os_path_isdir broken_link
   \<and> get_size ''/srv/dangling'' broken_link = None
   \<and> \<not> os_path_isfile socket_node \<and> \<not> os_path_isdir socket_node
   \<and> get_size ''/srv/ctl.sock'' socket_node = None"
proof -
  have b: "\<not> os_path_isfile broken_link \<and> \<not> os_path_isdir broken_link"
    by (simp add: os_path_isfile_def os_path_isdir_def broken_link_def)
  have s: "\<not> os_path_isfile socket_node \<and> \<not> os_path_isdir socket_node"
    by (simp add: os_path_isfile_def os_path_isdir_def socket_node_def)
  show ?thesis
    using b s
      get_size_neither_file_nor_dir [of broken_link "''/srv/dangling''"]
      get_size_neither_file_nor_dir [of socket_node "''/srv/ctl.sock''"]
    by simp
qed


lemma get_size_stat_fails: "stat n = Inl e \<Longrightarrow> get_size path n = None"
  by (simp add: get_size_def get_size_try_def os_path_isfile_def os_path_isdir_def)

lemma getsize_isl: "isl (os_path_getsize c) = isl (stat c)"
  by (simp add: os_path_getsize_def split: sum.splits prod.splits)

lemma sum_filenames_isl:
  "isl (sum_filenames fns acc) =
     list_ex (\<lambda>(f, fp). \<not> os_path_islink fp \<and> isl (stat fp)) fns"
proof (induction fns arbitrary: acc)
  case Nil
  show ?case by simp
next
  case (Cons x fns)
  obtain f fp where x: "x = (f, fp)" by (cases x)
  show ?case
    using Cons.IH getsize_isl [of fp]
    by (cases "os_path_getsize fp") (auto simp: x)
qed

lemma sum_walk_isl:
  "isl (sum_walk w acc) =
     list_ex (\<lambda>(dirpath, dirnames, filenames).
                list_ex (\<lambda>(f, fp). \<not> os_path_islink fp \<and> isl (stat fp)) filenames) w"
proof (induction w arbitrary: acc)
  case Nil
  show ?case by simp
next
  case (Cons x w)
  obtain dp dns fns where x: "x = (dp, dns, fns)" by (cases x)
  show ?case
    using Cons.IH sum_filenames_isl [of fns acc]
    by (cases "sum_filenames fns acc") (auto simp: x)
qed

lemma get_size_dir_None:
  assumes d: "os_path_isdir D"
  shows "(get_size path D = None) =
     (\<exists>(dirpath, dirnames, filenames) \<in> set (os_walk path D).
        \<exists>(f, fp) \<in> set filenames. \<not> os_path_islink fp \<and> isl (stat fp))"
proof -
  from d have nf: "\<not> os_path_isfile D"
    by (auto simp: os_path_isdir_def os_path_isfile_def split: sum.splits)
  have "(get_size path D = None) = isl (sum_walk (os_walk path D) 0)"
    using d nf by (simp add: get_size_def get_size_try_def split: sum.splits)
  then show ?thesis
    by (simp add: sum_walk_isl list_ex_iff case_prod_unfold)
qed

subsection \<open>Trees of regular files and directories\<close>

lemma regular_tree_cases:
  assumes "regular_tree c"
  shows "\<not> os_path_islink c"
    and "is_dir c = Inr (d_type c = S_IFDIR)"
    and "walk_is_dir c = (d_type c = S_IFDIR)"
    and "d_type c \<noteq> S_IFDIR \<Longrightarrow> os_path_isfile c \<and> os_path_getsize c = Inr (tree_size c)"
    and "d_type c = S_IFDIR \<Longrightarrow> \<not> os_path_isfile c \<and> os_path_isdir c"
  using assms
  by (cases c; cases "scandir c";
      auto simp: os_path_islink_def is_dir_def walk_is_dir_def os_path_isfile_def
        os_path_isdir_def os_path_getsize_def split: sum.splits)+

lemma sum_filenames_regular:
  "list_all (\<lambda>(nm, c). regular_tree c \<and> d_type c \<noteq> S_IFDIR) fs \<Longrightarrow>
   sum_filenames fs acc = Inr (acc + sum_list (map (\<lambda>(nm, c). tree_size c) fs))"
proof (induction fs arbitrary: acc)
  case Nil
  show ?case by simp
next
  case (Cons x fs)
  obtain nm c where x: "x = (nm, c)" by (cases x)
  from Cons.prems have r: "regular_tree c" and f: "d_type c \<noteq> S_IFDIR"
    and rest: "list_all (\<lambda>(nm, c). regular_tree c \<and> d_type c \<noteq> S_IFDIR) fs"
    by (simp_all add: x)
  show ?case
    using regular_tree_cases(1) [OF r] regular_tree_cases(4) [OF r f] Cons.IH [OF rest]
    by (simp add: x)
qed

lemma sum_walk_append:
  "sum_walk (xs @ ys) acc =
     (case sum_walk xs acc of Inl e \<Rightarrow> Inl e | Inr acc' \<Rightarrow> sum_walk ys acc')"
proof (induction xs arbitrary: acc)
  case Nil
  show ?case by simp
next
  case (Cons x xs)
  obtain dp dns fns where x: "x = (dp, dns, fns)" by (cases x)
  show ?case using Cons.IH by (simp add: x split: sum.splits)
qed

lemma sum_list_filter_split:
  "sum_list (map f xs) =
     sum_list (map f (filter P xs)) + sum_list (map f (filter (\<lambda>x. \<not> P x) xs))"
  for f :: "'a \<Rightarrow> nat"
  by (induction xs) simp_all

lemma sum_walk_subdirs:
  "(\<And>nm c acc. (nm, c) \<in> set ds \<Longrightarrow>
      sum_walk (os_walk (os_path_join p nm) c) acc = Inr (acc + tree_size c)) \<Longrightarrow>
   list_all (\<lambda>(nm, c). \<not> os_path_islink c) ds \<Longrightarrow>
   sum_walk (concat (map (\<lambda>(nm, c). if os_path_islink c then []
                                     else os_walk (os_path_join p nm) c) ds)) acc =
     Inr (acc + sum_list (map (\<lambda>(nm, c). tree_size c) ds))"
proof (induction ds arbitrary: acc)
  case Nil
  show ?case by simp
next
  case (Cons x ds)
  obtain nm c where x: "x = (nm, c)" by (cases x)
  have hd: "\<And>acc. sum_walk (os_walk (os_path_join p nm) c) acc = Inr (acc + tree_size c)"
    using Cons.prems(1) [of nm c] by (simp add: x)
  have nl: "\<not> os_path_islink c" and rest: "list_all (\<lambda>(nm, c). \<not> os_path_islink c) ds"
    using Cons.prems(2) by (simp_all add: x)
  have tl: "\<And>acc. sum_walk (concat (map (\<lambda>(nm, c). if os_path_islink c then []
                                     else os_walk (os_path_join p nm) c) ds)) acc =
     Inr (acc + sum_list (map (\<lambda>(nm, c). tree_size c) ds))"
    using Cons.IH [OF _ rest] Cons.prems(1) by simp
  show ?case
    by (simp add: x nl sum_walk_append hd tl)
qed

lemma sum_walk_regular:
  "regular_tree n \<Longrightarrow> d_type n = S_IFDIR \<Longrightarrow>
   sum_walk (os_walk p n) acc = Inr (acc + tree_size n)"
proof (induction p n arbitrary: acc rule: os_walk.induct)
  case (1 dirpath t l s)
  then show ?case by simp
next
  case (2 dirpath t l s ents)
  let ?dirs = "filter (\<lambda>(nm, c). walk_is_dir c) ents"
  let ?files = "filter (\<lambda>(nm, c). \<not> walk_is_dir c) ents"
  from "2.prems" have kids: "list_all (\<lambda>(nm, c). regular_tree c) ents" by simp
  then have reg: "\<And>nm c. (nm, c) \<in> set ents \<Longrightarrow> regular_tree c"
    by (auto simp: list_all_iff)
  have files: "list_all (\<lambda>(nm, c). regular_tree c \<and> d_type c \<noteq> S_IFDIR) ?files"
    using reg regular_tree_cases(3) by (auto simp: list_all_iff)
  have nolink: "list_all (\<lambda>(nm, c). \<not> os_path_islink c) ?dirs"
    using reg regular_tree_cases(1) by (auto simp: list_all_iff)
  have sub: "\<And>nm c acc. (nm, c) \<in> set ?dirs \<Longrightarrow>
      sum_walk (os_walk (os_path_join dirpath nm) c) acc = Inr (acc + tree_size c)"
  proof -
    fix nm c acc
    assume m: "(nm, c) \<in> set ?dirs"
    then have r: "regular_tree c" and w: "walk_is_dir c" using reg by auto
    show "sum_walk (os_walk (os_path_join dirpath nm) c) acc = Inr (acc + tree_size c)"
      using "2.IH" [OF m refl regular_tree_cases(1) [OF r] r] regular_tree_cases(3) [OF r] w
      by simp
  qed
  have split: "tree_size (Node t l s (Some ents)) =
      sum_list (map (\<lambda>(nm, c). tree_size c) ?files)
      + sum_list (map (\<lambda>(nm, c). tree_size c) ?dirs)"
    using sum_list_filter_split [of "\<lambda>(nm, c). tree_size c" ents "\<lambda>(nm, c). walk_is_dir c"]
    by (simp add: case_prod_unfold)
  have "sum_walk (os_walk dirpath (Node t l s (Some ents))) acc =
      Inr (acc + sum_list (map (\<lambda>(nm, c). tree_size c) ?files)
               + sum_list (map (\<lambda>(nm, c). tree_size c) ?dirs))"
    using sum_filenames_regular [OF files, of acc] sum_walk_subdirs [OF sub nolink]
    by simp
  then show ?case
    by (simp only: split add.assoc)
qed

lemma get_size_regular:
  assumes r: "regular_tree n"
  shows "get_size p n = Some (tree_size n)"
proof (cases "d_type n = S_IFDIR")
  case True
  show ?thesis
    using regular_tree_cases(5) [OF r True] sum_walk_regular [OF r True, of p 0]
    by (simp add: get_size_def get_size_try_def)
next
  case False
  show ?thesis
    using regular_tree_cases(4) [OF r False]
    by (simp add: get_size_def get_size_try_def)
qed


section \<open>Properties of the scanner\<close>

subsection \<open>The loop, entry by entry\<close>

lemma scan_loop_acc:
  "scan_loop root fo ents acc = acc @ scan_loop root fo ents []"
proof (induction ents arbitrary: acc fo)
  case Nil
  show ?case by simp
next
  case (Cons x rest)
  obtain nm c where x: "x = (nm, c)" by (cases x)
  show ?case
    using Cons.IH [of f "acc @ [e]" for e f] Cons.IH [of f "[e]" for e f] Cons.IH [of f acc for f]
    by (simp add: x split: sum.splits bool.splits)
qed

lemma scan_loop_Cons_dir:
  "is_dir c = Inr True \<Longrightarrow>
   scan_loop root fo ((nm, c) # rest) [] =
     Entry nm (os_path_join root nm) Directory (get_size (os_path_join root nm) c)
       (Some (list_files_and_folders_recursive (os_path_join root nm) c fo))
     # scan_loop root fo rest []"
  using scan_loop_acc [of root fo rest "[e]" for e] by simp

lemma scan_loop_Cons_file:
  "is_dir c = Inr False \<Longrightarrow>
   scan_loop root fo ((nm, c) # rest) [] =
     (if fo then []
      else [Entry nm (os_path_join root nm) File (get_size (os_path_join root nm) c) None])
     @ scan_loop root fo rest []"
  using scan_loop_acc [of root f rest "[e]" for e f] by simp

lemma scan_loop_append:
  "\<not> raises_is_dir pre \<Longrightarrow>
   scan_loop root fo (pre @ post) [] = scan_loop root fo pre [] @ scan_loop root fo post []"
proof (induction pre)
  case Nil
  show ?case by simp
next
  case (Cons x rest)
  obtain nm c where x: "x = (nm, c)" by (cases x)
  from Cons.prems have nr: "\<not> raises_is_dir rest" and ok: "\<not> isl (is_dir c)"
    by (simp_all add: raises_is_dir_def x)
  from ok obtain b where b: "is_dir c = Inr b" by (cases "is_dir c") auto
  show ?case
  proof (cases b)
    case True
    then show ?thesis
      using b Cons.IH [OF nr] scan_loop_Cons_dir [of c root fo nm "rest @ post"]
        scan_loop_Cons_dir [of c root fo nm rest]
      by (simp add: x)
  next
    case False
    then show ?thesis
      using b Cons.IH [OF nr] scan_loop_Cons_file [of c root fo nm "rest @ post"]
        scan_loop_Cons_file [of c root fo nm rest]
      by (simp add: x)
  qed
qed

lemma scan_split:
  assumes nr: "\<not> raises_is_dir pre" and b: "is_dir c = Inr b"
  shows "list_files_and_folders_recursive root (Node t l s (Some (pre @ (nm, c) # post))) fo =
     list_files_and_folders_recursive root (Node t l s (Some pre)) fo
     @ scan_loop root fo [(nm, c)] []
     @ list_files_and_folders_recursive root (Node t l s (Some post)) fo"
  using scan_loop_append [OF nr, of root fo "(nm, c) # post"] b
    scan_loop_Cons_dir [of c root fo nm post] scan_loop_Cons_file [of c root fo nm post]
  by (cases b) simp_all

subsection \<open>Folders only\<close>

lemma dirs_only_scan:
  "folders_only \<Longrightarrow> list_all dirs_only (list_files_and_folders_recursive root n folders_only)"
  "folders_only \<Longrightarrow> list_all dirs_only acc \<Longrightarrow>
     list_all dirs_only (scan_loop root folders_only ents acc)"
  by (induction root n folders_only and root folders_only ents acc
      rule: list_files_and_folders_recursive_scan_loop.induct)
     (simp_all split: sum.splits bool.splits)

lemma prune_scan:
  "list_files_and_folders_recursive root n True =
     prune_files (list_files_and_folders_recursive root n False)"
  "scan_loop root True ents [] = prune_files (scan_loop root False ents [])"
proof (induction root n "fo::bool" and root "fo::bool" ents "acc::entry list"
      rule: list_files_and_folders_recursive_scan_loop.induct)
  case (1 root t l s folders_only)
  show ?case by (simp add: prune_files_def)
next
  case (2 root t l s ents folders_only)
  then show ?case by simp
next
  case (3 root folders_only acc)
  show ?case by (simp add: prune_files_def)
next
  case (4 root folders_only nm c rest acc)
  show ?case
  proof (cases "is_dir c")
    case (Inl e)
    then show ?thesis by (simp add: prune_files_def)
  next
    case (Inr b)
    show ?thesis
    proof (cases b)
      case True
      with Inr have d: "is_dir c = Inr True" by simp
      have "list_files_and_folders_recursive (os_path_join root nm) c True =
              prune_files (list_files_and_folders_recursive (os_path_join root nm) c False)"
        and "scan_loop root True rest [] = prune_files (scan_loop root False rest [])"
        using 4(1,2) [OF d refl] by simp_all
      then show ?thesis
        using scan_loop_Cons_dir [OF d, of root True nm rest]
          scan_loop_Cons_dir [OF d, of root False nm rest]
        by (simp add: prune_files_def)
    next
      case False
      with Inr have f: "is_dir c = Inr False" by simp
      have "scan_loop root True rest [] = prune_files (scan_loop root False rest [])"
        using 4(3,4) [OF f refl] by (cases folders_only) simp_all
      then show ?thesis
        using scan_loop_Cons_file [OF f, of root True nm rest]
          scan_loop_Cons_file [OF f, of root False nm rest]
        by (simp add: prune_files_def)
    qed
  qed
qed

lemma dir_sizes_scan:
  "dir_sizes (list_files_and_folders_recursive root n True) =
     dir_sizes (list_files_and_folders_recursive root n False)"
  "dir_sizes (scan_loop root True ents []) = dir_sizes (scan_loop root False ents [])"
proof (induction root n "fo::bool" and root "fo::bool" ents "acc::entry list"
      rule: list_files_and_folders_recursive_scan_loop.induct)
  case (1 root t l s folders_only)
  show ?case by simp
next
  case (2 root t l s ents folders_only)
  then show ?case by simp
next
  case (3 root folders_only acc)
  show ?case by simp
next
  case (4 root folders_only nm c rest acc)
  show ?case
  proof (cases "is_dir c")
    case (Inl e)
    then show ?thesis by simp
  next
    case (Inr b)
    show ?thesis
    proof (cases b)
      case True
      with Inr have d: "is_dir c = Inr True" by simp
      have "dir_sizes (list_files_and_folders_recursive (os_path_join root nm) c True) =
              dir_sizes (list_files_and_folders_recursive (os_path_join root nm) c False)"
        and "dir_sizes (scan_loop root True rest []) = dir_sizes (scan_loop root False rest [])"
        using 4(1,2) [OF d refl] by simp_all
      then show ?thesis
        using scan_loop_Cons_dir [OF d, of root True nm rest]
          scan_loop_Cons_dir [OF d, of root False nm rest]
        by (simp add: dir_sizes_def)
    next
      case False
      with Inr have f: "is_dir c = Inr False" by simp
      have "dir_sizes (scan_loop root True rest []) = dir_sizes (scan_loop root False rest [])"
        using 4(3,4) [OF f refl] by (cases folders_only) simp_all
      then show ?thesis
        using scan_loop_Cons_file [OF f, of root True nm rest]
          scan_loop_Cons_file [OF f, of root False nm rest]
        by (simp add: dir_sizes_def)
    qed
  qed
qed

subsection \<open>Recorded sizes on trees of regular files and directories\<close>

lemma dir_sizes_regular:
  "regular_tree n \<Longrightarrow>
   dir_sizes (list_files_and_folders_recursive root n fo) =
     map (\<lambda>(p, d). (p, Some (tree_size d))) (subdirs root n)"
  "list_all (\<lambda>(nm, c). regular_tree c) ents \<Longrightarrow>
   dir_sizes (scan_loop root fo ents []) =
     map (\<lambda>(p, d). (p, Some (tree_size d)))
       (concat (map (\<lambda>(nm, c). if d_type c = S_IFDIR
                     then (os_path_join root nm, c) # subdirs (os_path_join root nm) c
                     else []) ents))"
proof (induction root n fo and root fo ents "acc::entry list"
      rule: list_files_and_folders_recursive_scan_loop.induct)
  case (1 root t l s folders_only)
  show ?case by (simp add: dir_sizes_def)
next
  case (2 root t l s ents folders_only)
  then show ?case by simp
next
  case (3 root folders_only acc)
  show ?case by (simp add: dir_sizes_def)
next
  case (4 root folders_only nm c rest acc)
  from "4.prems" have r: "regular_tree c" and rr: "list_all (\<lambda>(nm, c). regular_tree c) rest"
    by simp_all
  show ?case
  proof (cases "d_type c = S_IFDIR")
    case True
    then have d: "is_dir c = Inr True" using regular_tree_cases(2) [OF r] by simp
    show ?thesis
      using "4.IH"(1) [OF d refl r] "4.IH"(2) [OF d refl rr]
        scan_loop_Cons_dir [OF d, of root folders_only nm rest]
        get_size_regular [OF r, of "os_path_join root nm"] True
      by (simp add: dir_sizes_def)
  next
    case False
    then have f: "is_dir c = Inr False" using regular_tree_cases(2) [OF r] by simp
    have "dir_sizes (scan_loop root folders_only rest []) =
     map (\<lambda>(p, d). (p, Some (tree_size d)))
       (concat (map (\<lambda>(nm, c). if d_type c = S_IFDIR
                     then (os_path_join root nm, c) # subdirs (os_path_join root nm) c
                     else []) rest))"
      using "4.IH"(3,4) [OF f refl] rr by (cases folders_only) simp_all
    then show ?thesis
      using scan_loop_Cons_file [OF f, of root folders_only nm rest] False
      by (simp add: dir_sizes_def)
  qed
qed

subsection \<open>Directories that cannot be listed\<close>

lemma unreadable_as_empty_fields:
  "d_type (unreadable_as_empty c) = d_type c"
  "lstat_err (unreadable_as_empty c) = lstat_err c"
  "stat (unreadable_as_empty c) = stat c"
  by (cases c; cases "scandir c"; simp)+

lemma unreadable_as_empty_calls:
  "is_dir (unreadable_as_empty c) = is_dir c"
  "walk_is_dir (unreadable_as_empty c) = walk_is_dir c"
  "os_path_islink (unreadable_as_empty c) = os_path_islink c"
  "os_path_getsize (unreadable_as_empty c) = os_path_getsize c"
  "os_path_isfile (unreadable_as_empty c) = os_path_isfile c"
  "os_path_isdir (unreadable_as_empty c) = os_path_isdir c"
  by (simp_all add: is_dir_def walk_is_dir_def os_path_islink_def os_path_getsize_def
      os_path_isfile_def os_path_isdir_def unreadable_as_empty_fields split: option.splits)

lemma sum_filenames_unreadable_as_empty:
  "sum_filenames (map (\<lambda>(nm, c). (nm, unreadable_as_empty c)) fs) acc = sum_filenames fs acc"
proof (induction fs arbitrary: acc)
  case Nil
  show ?case by simp
next
  case (Cons x fs)
  obtain nm c where x: "x = (nm, c)" by (cases x)
  show ?case using Cons.IH by (simp add: x unreadable_as_empty_calls split: sum.splits)
qed

lemma filter_unreadable_as_empty:
  "(\<And>c. P (unreadable_as_empty c) = P c) \<Longrightarrow>
   filter (\<lambda>(nm, c). P c) (map (\<lambda>(nm, c). (nm, unreadable_as_empty c)) ents) =
     map (\<lambda>(nm, c). (nm, unreadable_as_empty c)) (filter (\<lambda>(nm, c). P c) ents)"
  by (induction ents) auto

lemma sum_walk_subdirs_unreadable_as_empty:
  "(\<And>nm c acc. (nm, c) \<in> set ds \<Longrightarrow> \<not> os_path_islink c \<Longrightarrow>
      sum_walk (os_walk (os_path_join p nm) (unreadable_as_empty c)) acc =
      sum_walk (os_walk (os_path_join p nm) c) acc) \<Longrightarrow>
   sum_walk (concat (map (\<lambda>(nm, c). if os_path_islink c then []
                                     else os_walk (os_path_join p nm) (unreadable_as_empty c)) ds)) acc =
   sum_walk (concat (map (\<lambda>(nm, c). if os_path_islink c then []
                                     else os_walk (os_path_join p nm) c) ds)) acc"
proof (induction ds arbitrary: acc)
  case Nil
  show ?case by simp
next
  case (Cons x ds)
  obtain nm c where x: "x = (nm, c)" by (cases x)
  have tl: "\<And>acc. sum_walk (concat (map (\<lambda>(nm, c). if os_path_islink c then []
                                     else os_walk (os_path_join p nm) (unreadable_as_empty c)) ds)) acc =
   sum_walk (concat (map (\<lambda>(nm, c). if os_path_islink c then []
                                     else os_walk (os_path_join p nm) c) ds)) acc"
    using Cons.IH Cons.prems by simp
  show ?case
  proof (cases "os_path_islink c")
    case True
    then show ?thesis by (simp add: x tl)
  next
    case False
    have hd: "\<And>acc. sum_walk (os_walk (os_path_join p nm) (unreadable_as_empty c)) acc =
      sum_walk (os_walk (os_path_join p nm) c) acc"
      using Cons.prems [of nm c] False by (simp add: x)
    show ?thesis
      by (simp add: x False sum_walk_append hd tl split: sum.splits)
  qed
qed

lemma sum_walk_unreadable_as_empty:
  "sum_walk (os_walk p (unreadable_as_empty n)) acc = sum_walk (os_walk p n) acc"
proof (induction p n arbitrary: acc rule: os_walk.induct)
  case (1 dirpath t l s)
  show ?case by simp
next
  case (2 dirpath t l s ents)
  let ?ds = "filter (\<lambda>(nm, c). walk_is_dir c) ents"
  let ?fs = "filter (\<lambda>(nm, c). \<not> walk_is_dir c) ents"
  let ?L = "\<lambda>(nm, c). (nm, unreadable_as_empty c)"
  have sub: "\<And>nm c acc. (nm, c) \<in> set ?ds \<Longrightarrow> \<not> os_path_islink c \<Longrightarrow>
      sum_walk (os_walk (os_path_join dirpath nm) (unreadable_as_empty c)) acc =
      sum_walk (os_walk (os_path_join dirpath nm) c) acc"
    using "2.IH" by blast
  have f1: "filter (\<lambda>(nm, c). walk_is_dir c) (map ?L ents) = map ?L ?ds"
    using filter_unreadable_as_empty [of walk_is_dir ents] by (simp add: unreadable_as_empty_calls)
  have f2: "filter (\<lambda>(nm, c). \<not> walk_is_dir c) (map ?L ents) = map ?L ?fs"
    using filter_unreadable_as_empty [of "\<lambda>c. \<not> walk_is_dir c" ents] by (simp add: unreadable_as_empty_calls)
  have f3: "map (\<lambda>(nm, c). if os_path_islink c then [] else os_walk (os_path_join dirpath nm) c)
              (map ?L ?ds) =
            map (\<lambda>(nm, c). if os_path_islink c then []
                             else os_walk (os_path_join dirpath nm) (unreadable_as_empty c)) ?ds"
    by (simp add: case_prod_unfold unreadable_as_empty_calls)
  have "os_walk dirpath (unreadable_as_empty (Node t l s (Some ents))) =
          (dirpath, map fst (map ?L ?ds), map ?L ?fs)
          # concat (map (\<lambda>(nm, c). if os_path_islink c then []
                             else os_walk (os_path_join dirpath nm) (unreadable_as_empty c)) ?ds)"
    by (simp only: unreadable_as_empty.simps os_walk.simps f1 f2 f3)
  then show ?case
    using sum_walk_subdirs_unreadable_as_empty [of ?ds dirpath, OF sub]
    by (simp add: sum_filenames_unreadable_as_empty split: sum.splits)
qed

lemma get_size_unreadable_as_empty: "get_size p (unreadable_as_empty n) = get_size p n"
  by (simp add: get_size_def get_size_try_def unreadable_as_empty_calls sum_walk_unreadable_as_empty)

lemma scan_unreadable_as_empty:
  "list_files_and_folders_recursive root (unreadable_as_empty n) fo =
     list_files_and_folders_recursive root n fo"
  "scan_loop root fo (map (\<lambda>(nm, c). (nm, unreadable_as_empty c)) ents) acc = scan_loop root fo ents acc"
proof (induction root n fo and root fo ents acc
      rule: list_files_and_folders_recursive_scan_loop.induct)
  case (1 root t l s folders_only)
  show ?case by simp
next
  case (2 root t l s ents folders_only)
  then show ?case by simp
next
  case (3 root folders_only acc)
  show ?case by simp
next
  case (4 root folders_only nm c rest acc)
  show ?case
  proof (cases "is_dir c")
    case (Inl e)
    then show ?thesis by (simp add: unreadable_as_empty_calls)
  next
    case (Inr b)
    show ?thesis
    proof (cases b)
      case True
      with Inr have d: "is_dir c = Inr True" by simp
      show ?thesis
        using "4.IH"(1,2) [OF d refl]
        by (simp add: unreadable_as_empty_calls get_size_unreadable_as_empty d)
    next
      case False
      with Inr have f: "is_dir c = Inr False" by simp
      show ?thesis
        using "4.IH"(3,4) [OF f refl]
        by (cases folders_only) (simp_all add: unreadable_as_empty_calls get_size_unreadable_as_empty f)
    qed
  qed
qed

subsection \<open>Exceptions that reach the caller\<close>

lemma embedded_null_join:
  "\<not> embedded_null a \<Longrightarrow> \<not> embedded_null b \<Longrightarrow> \<not> embedded_null (os_path_join a b)"
  by (simp add: embedded_null_def os_path_join_def)

lemma scan_run_outcome:
  "\<not> embedded_null root \<Longrightarrow> names_without_null n \<Longrightarrow>
   list_files_and_folders_recursive_run k root n fo =
     (if scan_frames n \<le> k then Inr (list_files_and_folders_recursive root n fo)
      else Inl RecursionError)"
  "\<not> embedded_null root \<Longrightarrow>
   list_all (\<lambda>(nm, c). \<not> embedded_null nm \<and> names_without_null c) ents \<Longrightarrow>
   scan_loop_run k root fo ents acc =
     (if scan_loop_frames ents \<le> k then Inr (scan_loop root fo ents acc)
      else Inl RecursionError)"
proof (induction k root n fo and k root fo ents acc
      rule: list_files_and_folders_recursive_run_scan_loop_run.induct)
  case (1 root n folders_only)
  show ?case by (cases n; cases "scandir n") simp_all
next
  case (2 k root n folders_only)
  show ?case
  proof (cases n)
    case (Node t l s ls)
    show ?thesis
    proof (cases ls)
      case None
      then show ?thesis using "2.prems" by (simp add: Node)
    next
      case (Some ents)
      then show ?thesis
        using "2.IH" [of ents] "2.prems" by (simp add: Node)
    qed
  qed
next
  case (3 k root folders_only acc)
  show ?case by simp
next
  case (4 k root folders_only nm c rest acc)
  from "4.prems" have nn: "\<not> embedded_null nm" and nc: "names_without_null c"
    and nr: "list_all (\<lambda>(nm, c). \<not> embedded_null nm \<and> names_without_null c) rest"
    by simp_all
  have nj: "\<not> embedded_null (os_path_join root nm)"
    using "4.prems"(1) nn by (rule embedded_null_join)
  show ?case
  proof (cases "is_dir c")
    case (Inl e)
    then show ?thesis by simp
  next
    case (Inr b)
    show ?thesis
    proof (cases b)
      case True
      with Inr have d: "is_dir c = Inr True" by simp
      note sub = "4.IH"(1) [OF d refl nj nc]
      show ?thesis
      proof (cases "scan_frames c \<le> k")
        case True
        then have sr: "list_files_and_folders_recursive_run k (os_path_join root nm) c folders_only =
            Inr (list_files_and_folders_recursive (os_path_join root nm) c folders_only)"
          using sub by simp
        show ?thesis
          using "4.IH"(2) [OF d refl sr "4.prems"(1) nr] True
          by (simp add: d sr)
      next
        case False
        then show ?thesis using sub by (simp add: d)
      qed
    next
      case False
      with Inr have f: "is_dir c = Inr False" by simp
      show ?thesis
        using "4.IH"(3,4) [OF f refl] "4.prems"(1) nr
        by (cases folders_only) (simp_all add: f)
    qed
  qed
qed

lemma scan_run_ValueError:
  "0 < k \<Longrightarrow> embedded_null root \<Longrightarrow>
   list_files_and_folders_recursive_run k root n fo = Inl ValueError"
  by (cases k) simp_all

lemma deep_dir_is_dir: "is_dir (deep_dir k) = Inr True"
  by (cases k) (simp_all add: plain_dir_def is_dir_def)

lemma scan_frames_deep_dir: "scan_frames (deep_dir k) = Suc k"
proof (induction k)
  case 0
  show ?case by (simp add: plain_dir_def plain_file_def is_dir_def)
next
  case (Suc k)
  then show ?case by (simp add: plain_dir_def deep_dir_is_dir)
qed

lemma names_without_null_deep_dir: "names_without_null (deep_dir k)"
  by (induction k) (simp_all add: plain_dir_def plain_file_def embedded_null_def)

subsection \<open>The example filesystems, scanned\<close>

lemmas os_defs =
  os_path_join_def os_path_isfile_def os_path_isdir_def os_path_islink_def
  os_path_getsize_def is_dir_def walk_is_dir_def get_size_def get_size_try_def

lemmas example_defs =
  plain_file_def plain_dir_def unreadable_dir_def unstatable_file_def unstatable_dir_def
  denied_link_def c_tree_def d_tree_def h_tree_def
  regular_root_def locked_root_def unsearchable_root_def blocked_root_def denied_link_root_def

lemma scan_regular_root:
  "list_files_and_folders_recursive ''/r'' regular_root False =
     [Entry ''a.txt'' ''/r/a.txt'' File (Some 10) None,
      Entry ''b'' ''/r/b'' Directory (Some 0) (Some []),
      Entry ''c'' ''/r/c'' Directory (Some 5)
        (Some [Entry ''d.txt'' ''/r/c/d.txt'' File (Some 5) None]),
      Entry ''e.txt'' ''/r/e.txt'' File (Some 3) None]"
  by (simp add: example_defs os_defs)

lemma scan_regular_root_folders_only:
  "list_files_and_folders_recursive ''/r'' regular_root True =
     [Entry ''b'' ''/r/b'' Directory (Some 0) (Some []),
      Entry ''c'' ''/r/c'' Directory (Some 5) (Some [])]"
  by (simp add: example_defs os_defs)

lemma scan_locked_root:
  "list_files_and_folders_recursive ''/r'' locked_root False =
     [Entry ''a.txt'' ''/r/a.txt'' File (Some 10) None,
      Entry ''locked'' ''/r/locked'' Directory (Some 0) (Some []),
      Entry ''c'' ''/r/c'' Directory (Some 5)
        (Some [Entry ''d.txt'' ''/r/c/d.txt'' File (Some 5) None])]"
  by (simp add: example_defs os_defs)

lemma scan_unsearchable_root:
  "list_files_and_folders_recursive ''/r'' unsearchable_root False =
     [Entry ''d'' ''/r/d'' Directory None (Some [Entry ''f'' ''/r/d/f'' File None None]),
      Entry ''g'' ''/r/g'' File (Some 7) None]"
  by (simp add: example_defs os_defs)


lemma scan_blocked_root:
  "list_files_and_folders_recursive ''/r'' blocked_root False =
     [Entry ''locked'' ''/r/locked'' Directory (Some 0) (Some [])]"
  by (simp add: example_defs os_defs)

lemma scan_denied_link_root:
  "list_files_and_folders_recursive ''/r'' denied_link_root False =
     [Entry ''a.txt'' ''/r/a.txt'' File (Some 10) None]"
  by (simp add: example_defs os_defs)

subsection \<open>Failing calls\<close>

text \<open>
  The directory \<^verbatim>\<open>/r/d\<close> may be read but not searched: its file \<^verbatim>\<open>f\<close> is listed, and
  \<^verbatim>\<open>stat\<close> on it is denied. The scan is not aborted and \<^verbatim>\<open>f\<close> gets the size \<^verbatim>\<open>None\<close>,
  but so does the enclosing directory \<^verbatim>\<open>d\<close>: its size is not a number that counts
  \<^verbatim>\<open>f\<close> as 0. And where the failing \<^verbatim>\<open>stat\<close> is that of a symbolic link,
  \<^verbatim>\<open>entry.is_dir()\<close> raises before the size is asked for: the loop ends, and neither
  the link nor the file after it is listed.
\<close>

theorem unsearchable_directory_size_is_None:
  "stat unstatable_file = Inl PermissionError
   \<and> list_files_and_folders_recursive ''/r'' unsearchable_root False =
       [Entry ''d'' ''/r/d'' Directory None (Some [Entry ''f'' ''/r/d/f'' File None None]),
        Entry ''g'' ''/r/g'' File (Some 7) None]
   \<and> get_size ''/r/d'' d_tree = None
   \<and> get_size ''/r/d'' d_tree \<noteq> Some 0
   \<and> stat denied_link = Inl PermissionError
   \<and> list_files_and_folders_recursive ''/r'' denied_link_root False =
       [Entry ''a.txt'' ''/r/a.txt'' File (Some 10) None]"
  by (simp add: example_defs os_defs)

text \<open>
  C1, as the code has it. A failing \<^verbatim>\<open>stat\<close> is caught by the \<^verbatim>\<open>get_size\<close> call in which
  it happens, and that call returns \<^verbatim>\<open>None\<close>:

  \<^item> \<^verbatim>\<open>get_size\<close> of a path whose \<^verbatim>\<open>stat\<close> fails is \<^verbatim>\<open>None\<close>;
  \<^item> when the scanner's loop reaches the size query of such an entry, that is when
    \<^verbatim>\<open>entry.is_dir()\<close> returns a value for it and raised for no entry before it in the
    listing, the loop is not aborted: the entry is listed with the size \<^verbatim>\<open>None\<close>, as a
    file or as a directory with its contents, between the entries before it and the
    entries after it;
  \<^item> the size of a directory (a path for which \<^verbatim>\<open>os.path.isdir\<close> holds) is \<^verbatim>\<open>None\<close>
    exactly when its size walk meets a file name for which \<^verbatim>\<open>os.path.islink\<close> is false
    and whose \<^verbatim>\<open>stat\<close> fails. So such a file makes the size of every directory whose
    walk reaches it \<^verbatim>\<open>None\<close>: it is not counted as 0.
\<close>

theorem size_probe_failure_is_caught_per_get_size_call:
  "(stat n = Inl e \<longrightarrow> get_size path n = None)
   \<and> (stat c = Inl e \<and> is_dir c = Inr False \<and> \<not> raises_is_dir pre \<longrightarrow>
        list_files_and_folders_recursive root (Node t l s (Some (pre @ (nm, c) # post))) False =
          list_files_and_folders_recursive root (Node t l s (Some pre)) False
          @ Entry nm (os_path_join root nm) File None None
          # list_files_and_folders_recursive root (Node t l s (Some post)) False)
   \<and> (stat c = Inl e \<and> is_dir c = Inr True \<and> \<not> raises_is_dir pre \<longrightarrow>
        list_files_and_folders_recursive root (Node t l s (Some (pre @ (nm, c) # post))) fo =
          list_files_and_folders_recursive root (Node t l s (Some pre)) fo
          @ Entry nm (os_path_join root nm) Directory None
              (Some (list_files_and_folders_recursive (os_path_join root nm) c fo))
          # list_files_and_folders_recursive root (Node t l s (Some post)) fo)
   \<and> (os_path_isdir D \<longrightarrow>
        (get_size dpath D = None) =
          (\<exists>(dirpath, dirnames, filenames) \<in> set (os_walk dpath D).
             \<exists>(f, fp) \<in> set filenames. \<not> os_path_islink fp \<and> isl (stat fp)))"
proof -
  have a: "stat n = Inl e \<longrightarrow> get_size path n = None"
    by (simp add: get_size_stat_fails)
  have b: "stat c = Inl e \<and> is_dir c = Inr False \<and> \<not> raises_is_dir pre \<longrightarrow>
        list_files_and_folders_recursive root (Node t l s (Some (pre @ (nm, c) # post))) False =
          list_files_and_folders_recursive root (Node t l s (Some pre)) False
          @ Entry nm (os_path_join root nm) File None None
          # list_files_and_folders_recursive root (Node t l s (Some post)) False"
    using scan_split [of pre c False root t l s nm post False]
      scan_loop_Cons_file [of c root False nm "[]"]
      get_size_stat_fails [of c e "os_path_join root nm"]
    by simp
  have c: "stat c = Inl e \<and> is_dir c = Inr True \<and> \<not> raises_is_dir pre \<longrightarrow>
        list_files_and_folders_recursive root (Node t l s (Some (pre @ (nm, c) # post))) fo =
          list_files_and_folders_recursive root (Node t l s (Some pre)) fo
          @ Entry nm (os_path_join root nm) Directory None
              (Some (list_files_and_folders_recursive (os_path_join root nm) c fo))
          # list_files_and_folders_recursive root (Node t l s (Some post)) fo"
    using scan_split [of pre c True root t l s nm post fo]
      scan_loop_Cons_dir [of c root fo nm "[]"]
      get_size_stat_fails [of c e "os_path_join root nm"]
    by simp
  have d: "os_path_isdir D \<longrightarrow>
        (get_size dpath D = None) =
          (\<exists>(dirpath, dirnames, filenames) \<in> set (os_walk dpath D).
             \<exists>(f, fp) \<in> set filenames. \<not> os_path_islink fp \<and> isl (stat fp))"
    using get_size_dir_None [of D dpath] by blast
  show ?thesis
    using a b c d by blast
qed

theorem size_probe_failure_is_caught_per_get_size_call_witness:
  "stat unstatable_file = Inl PermissionError
   \<and> is_dir unstatable_file = Inr False
   \<and> \<not> raises_is_dir []
   \<and> get_size ''/r/d/f'' unstatable_file = None
   \<and> list_files_and_folders_recursive ''/r/d'' d_tree False =
       [Entry ''f'' ''/r/d/f'' File None None]
   \<and> os_path_isdir d_tree
   \<and> os_walk ''/r/d'' d_tree = [(''/r/d'', [], [(''f'', unstatable_file)])]
   \<and> \<not> os_path_islink unstatable_file
   \<and> get_size ''/r/d'' d_tree = None
   \<and> stat unstatable_dir = Inl PermissionError
   \<and> is_dir unstatable_dir = Inr True
   \<and> list_files_and_folders_recursive ''/r/h'' h_tree False =
       [Entry ''sub'' ''/r/h/sub'' Directory None (Some [])]
   \<and> os_path_isdir h_tree
   \<and> os_walk ''/r/h'' h_tree = [(''/r/h'', [''sub''], [])]
   \<and> get_size ''/r/h'' h_tree \<noteq> None"
proof -
  have h1: "stat unstatable_file = Inl PermissionError"
    by (simp add: unstatable_file_def)
  have h2: "is_dir unstatable_file = Inr False"
    by (simp add: unstatable_file_def is_dir_def)
  have h3: "\<not> raises_is_dir []"
    by (simp add: raises_is_dir_def)
  have h4: "os_path_isdir d_tree"
    by (simp add: d_tree_def plain_dir_def os_path_isdir_def)
  have h5: "os_walk ''/r/d'' d_tree = [(''/r/d'', [], [(''f'', unstatable_file)])]"
    by (simp add: d_tree_def plain_dir_def unstatable_file_def walk_is_dir_def is_dir_def)
  have h6: "\<not> os_path_islink unstatable_file"
    by (simp add: unstatable_file_def os_path_islink_def)
  have h7: "d_tree = Node S_IFDIR None (Inr (S_IFDIR, 4096)) (Some [(''f'', unstatable_file)])"
    by (simp add: d_tree_def plain_dir_def)
  have h8: "os_path_join ''/r/d'' ''f'' = ''/r/d/f''"
    by (simp add: os_path_join_def)
  have h9: "list_files_and_folders_recursive r (Node S_IFDIR None (Inr (S_IFDIR, 4096)) (Some [])) False = []"
    for r
    by simp
  have k1: "stat unstatable_dir = Inl PermissionError"
    by (simp add: unstatable_dir_def)
  have k2: "is_dir unstatable_dir = Inr True"
    by (simp add: unstatable_dir_def is_dir_def)
  have k4: "os_path_isdir h_tree"
    by (simp add: h_tree_def plain_dir_def os_path_isdir_def)
  have k5: "os_walk ''/r/h'' h_tree = [(''/r/h'', [''sub''], [])]"
    by (simp add: h_tree_def plain_dir_def unstatable_dir_def walk_is_dir_def is_dir_def
        os_path_islink_def)
  have k7: "h_tree = Node S_IFDIR None (Inr (S_IFDIR, 4096)) (Some [(''sub'', unstatable_dir)])"
    by (simp add: h_tree_def plain_dir_def)
  have k8: "os_path_join ''/r/h'' ''sub'' = ''/r/h/sub''"
    by (simp add: os_path_join_def)
  have k9: "list_files_and_folders_recursive ''/r/h/sub'' unstatable_dir False = []"
    by (simp add: unstatable_dir_def)
  note t = size_probe_failure_is_caught_per_get_size_call
      [where n = unstatable_file and e = PermissionError and path = "''/r/d/f''"
         and c = unstatable_file and pre = "[]" and root = "''/r/d''"
         and t = S_IFDIR and l = None and s = "Inr (S_IFDIR, 4096)" and nm = "''f''"
         and post = "[]" and D = d_tree and dpath = "''/r/d''"]
  note u = size_probe_failure_is_caught_per_get_size_call
      [where e = PermissionError
         and c = unstatable_dir and pre = "[]" and root = "''/r/h''"
         and t = S_IFDIR and l = None and s = "Inr (S_IFDIR, 4096)" and nm = "''sub''"
         and post = "[]" and fo = False and D = h_tree and dpath = "''/r/h''"]
  from t h1 have g1: "get_size ''/r/d/f'' unstatable_file = None"
    by blast
  from t h1 h2 h3 have
    "list_files_and_folders_recursive ''/r/d''
       (Node S_IFDIR None (Inr (S_IFDIR, 4096)) (Some ([] @ (''f'', unstatable_file) # []))) False =
     list_files_and_folders_recursive ''/r/d'' (Node S_IFDIR None (Inr (S_IFDIR, 4096)) (Some [])) False
     @ Entry ''f'' (os_path_join ''/r/d'' ''f'') File None None
     # list_files_and_folders_recursive ''/r/d'' (Node S_IFDIR None (Inr (S_IFDIR, 4096)) (Some [])) False"
    by blast
  then have g2: "list_files_and_folders_recursive ''/r/d'' d_tree False =
       [Entry ''f'' ''/r/d/f'' File None None]"
    by (simp only: h7 h8 h9 append_Nil)
  from t h4 have "(get_size ''/r/d'' d_tree = None) =
          (\<exists>(dirpath, dirnames, filenames) \<in> set (os_walk ''/r/d'' d_tree).
             \<exists>(f, fp) \<in> set filenames. \<not> os_path_islink fp \<and> isl (stat fp))"
    by blast
  then have g3: "get_size ''/r/d'' d_tree = None"
    using h1 h6 by (simp add: h5)
  from u k1 k2 h3 have
    "list_files_and_folders_recursive ''/r/h''
       (Node S_IFDIR None (Inr (S_IFDIR, 4096)) (Some ([] @ (''sub'', unstatable_dir) # []))) False =
     list_files_and_folders_recursive ''/r/h'' (Node S_IFDIR None (Inr (S_IFDIR, 4096)) (Some [])) False
     @ Entry ''sub'' (os_path_join ''/r/h'' ''sub'') Directory None
         (Some (list_files_and_folders_recursive (os_path_join ''/r/h'' ''sub'') unstatable_dir False))
     # list_files_and_folders_recursive ''/r/h'' (Node S_IFDIR None (Inr (S_IFDIR, 4096)) (Some [])) False"
    by blast
  then have g4: "list_files_and_folders_recursive ''/r/h'' h_tree False =
       [Entry ''sub'' ''/r/h/sub'' Directory None (Some [])]"
    by (simp only: k7 k8 k9 h9 append_Nil)
  from u k4 have "(get_size ''/r/h'' h_tree = None) =
          (\<exists>(dirpath, dirnames, filenames) \<in> set (os_walk ''/r/h'' h_tree).
             \<exists>(f, fp) \<in> set filenames. \<not> os_path_islink fp \<and> isl (stat fp))"
    by blast
  then have g5: "get_size ''/r/h'' h_tree \<noteq> None"
    by (simp add: k5)
  show ?thesis
    using h1 h2 h3 h4 h5 h6 g1 g2 g3 k1 k2 k4 k5 g4 g5 by (simp only: simp_thms)
qed

text \<open>
  The scanner raises to its caller: \<^verbatim>\<open>ValueError\<close> for a root path with an embedded
  NUL, \<^verbatim>\<open>RecursionError\<close> for a chain of 1000 nested directories even with 1000
  activations left. And siblings are affected: in \<^verbatim>\<open>/r\<close> the entry \<^verbatim>\<open>lnk\<close> makes
  \<^verbatim>\<open>entry.is_dir()\<close> raise, so the directory \<^verbatim>\<open>c\<close> after it is not scanned and
  \<^verbatim>\<open>locked2\<close>, whose listing cannot be read, gets no entry at all.
\<close>

theorem scanner_raises_and_drops_siblings:
  "embedded_null null_path
   \<and> list_files_and_folders_recursive_run 1000 null_path regular_root False = Inl ValueError
   \<and> scan_frames (deep_dir 1000) = 1001
   \<and> list_files_and_folders_recursive_run 1000 ''/r'' (deep_dir 1000) False = Inl RecursionError
   \<and> scandir unreadable_dir = None
   \<and> list_files_and_folders_recursive_run 1000 ''/r'' blocked_root False =
       Inr [Entry ''locked'' ''/r/locked'' Directory (Some 0) (Some [])]"
proof -
  have n: "embedded_null null_path"
    by (simp add: null_path_def embedded_null_def)
  have r: "\<not> embedded_null ''/r''"
    by (simp add: embedded_null_def)
  have a: "list_files_and_folders_recursive_run 1000 null_path regular_root False = Inl ValueError"
    using scan_run_ValueError [of 1000 null_path regular_root False] n by simp
  have b: "list_files_and_folders_recursive_run 1000 ''/r'' (deep_dir 1000) False = Inl RecursionError"
    using scan_run_outcome(1) [OF r names_without_null_deep_dir, of 1000 1000 False]
    by (simp add: scan_frames_deep_dir)
  have nb: "names_without_null blocked_root"
    by (simp add: example_defs embedded_null_def)
  have fb: "scan_frames blocked_root = 2"
    by (simp add: example_defs is_dir_def)
  have c: "list_files_and_folders_recursive_run 1000 ''/r'' blocked_root False =
       Inr [Entry ''locked'' ''/r/locked'' Directory (Some 0) (Some [])]"
    using scan_run_outcome(1) [OF r nb, of 1000 False]
    by (simp add: fb scan_blocked_root)
  show ?thesis
    using n a b c by (simp add: scan_frames_deep_dir unreadable_dir_def)
qed

text \<open>
  C2, as the code has it. With no NUL in the root path and in the names of the
  tree, the scanner raises exactly when the tree needs more nested activations than
  the recursion limit allows, and the exception is \<^verbatim>\<open>RecursionError\<close>; otherwise it
  returns its list. A root path with an embedded NUL raises \<^verbatim>\<open>ValueError\<close>. A
  directory whose listing cannot be read yields the empty list; when the loop reaches
  it as a directory, that is when \<^verbatim>\<open>entry.is_dir()\<close> is true for it and raised for no
  entry before it in the listing, it is listed with \<^verbatim>\<open>contents = []\<close> between the
  entries of the siblings before it and of the siblings after it, which are what they
  are without it. The whole output, sizes included, is the output for the same tree
  with every such directory empty instead.
\<close>

theorem scanner_outcome_and_unreadable_directories:
  "(\<not> embedded_null root \<and> names_without_null n \<longrightarrow>
      list_files_and_folders_recursive_run k root n fo =
        (if scan_frames n \<le> k then Inr (list_files_and_folders_recursive root n fo)
         else Inl RecursionError))
   \<and> (0 < k \<and> embedded_null root \<longrightarrow>
        list_files_and_folders_recursive_run k root n fo = Inl ValueError)
   \<and> (scandir n = None \<longrightarrow> list_files_and_folders_recursive root n fo = [])
   \<and> (scandir d = None \<and> is_dir d = Inr True \<and> \<not> raises_is_dir pre \<longrightarrow>
        list_files_and_folders_recursive root (Node t l s (Some (pre @ (nm, d) # post))) fo =
          list_files_and_folders_recursive root (Node t l s (Some pre)) fo
          @ Entry nm (os_path_join root nm) Directory (get_size (os_path_join root nm) d) (Some [])
          # list_files_and_folders_recursive root (Node t l s (Some post)) fo)
   \<and> list_files_and_folders_recursive root (unreadable_as_empty n) fo =
       list_files_and_folders_recursive root n fo"
proof -
  have o: "\<not> embedded_null root \<and> names_without_null n \<longrightarrow>
      list_files_and_folders_recursive_run k root n fo =
        (if scan_frames n \<le> k then Inr (list_files_and_folders_recursive root n fo)
         else Inl RecursionError)"
    using scan_run_outcome(1) [of root n k fo] by blast
  have v: "0 < k \<and> embedded_null root \<longrightarrow>
        list_files_and_folders_recursive_run k root n fo = Inl ValueError"
    using scan_run_ValueError [of k root n fo] by blast
  have a: "scandir n = None \<longrightarrow> list_files_and_folders_recursive root n fo = []"
    by (cases n) auto
  have "scandir d = None \<longrightarrow> list_files_and_folders_recursive (os_path_join root nm) d fo = []"
    by (cases d) auto
  then have c: "scandir d = None \<and> is_dir d = Inr True \<and> \<not> raises_is_dir pre \<longrightarrow>
        list_files_and_folders_recursive root (Node t l s (Some (pre @ (nm, d) # post))) fo =
          list_files_and_folders_recursive root (Node t l s (Some pre)) fo
          @ Entry nm (os_path_join root nm) Directory (get_size (os_path_join root nm) d) (Some [])
          # list_files_and_folders_recursive root (Node t l s (Some post)) fo"
    using scan_split [of pre d True root t l s nm post fo]
      scan_loop_Cons_dir [of d root fo nm "[]"]
    by simp
  show ?thesis
    using o v a c scan_unreadable_as_empty(1) [of root n fo] by blast
qed

theorem scanner_outcome_and_unreadable_directories_witness:
  "\<not> embedded_null ''/r''
   \<and> names_without_null locked_root
   \<and> scan_frames locked_root = 2
   \<and> list_files_and_folders_recursive_run 2 ''/r'' locked_root False =
       Inr [Entry ''a.txt'' ''/r/a.txt'' File (Some 10) None,
            Entry ''locked'' ''/r/locked'' Directory (Some 0) (Some []),
            Entry ''c'' ''/r/c'' Directory (Some 5)
              (Some [Entry ''d.txt'' ''/r/c/d.txt'' File (Some 5) None])]
   \<and> list_files_and_folders_recursive_run 1 ''/r'' locked_root False = Inl RecursionError
   \<and> (0::nat) < 2
   \<and> embedded_null null_path
   \<and> list_files_and_folders_recursive_run 2 null_path locked_root False = Inl ValueError
   \<and> scandir unreadable_dir = None
   \<and> is_dir unreadable_dir = Inr True
   \<and> \<not> raises_is_dir [(''a.txt'', plain_file 10)]
   \<and> list_files_and_folders_recursive ''/r/locked'' unreadable_dir False = []
   \<and> list_files_and_folders_recursive ''/r'' locked_root False =
       [Entry ''a.txt'' ''/r/a.txt'' File (Some 10) None,
        Entry ''locked'' ''/r/locked'' Directory (Some 0) (Some []),
        Entry ''c'' ''/r/c'' Directory (Some 5)
          (Some [Entry ''d.txt'' ''/r/c/d.txt'' File (Some 5) None])]
   \<and> unreadable_as_empty unreadable_dir = plain_dir []
   \<and> list_files_and_folders_recursive ''/r/locked'' (plain_dir []) False = []"
proof -
  have e1: "\<not> embedded_null ''/r''"
    by (simp add: embedded_null_def)
  have e2: "names_without_null locked_root"
    by (simp add: example_defs embedded_null_def)
  have e3: "scan_frames locked_root = 2"
    by (simp add: example_defs is_dir_def)
  have e4: "(0::nat) < 2"
    by simp
  have e5: "embedded_null null_path"
    by (simp add: null_path_def embedded_null_def)
  have h1: "scandir unreadable_dir = None"
    by (simp add: unreadable_dir_def)
  have h2: "is_dir unreadable_dir = Inr True"
    by (simp add: unreadable_dir_def is_dir_def)
  have h3: "\<not> raises_is_dir [(''a.txt'', plain_file 10)]"
    by (simp add: raises_is_dir_def plain_file_def is_dir_def)
  have h4: "locked_root = Node S_IFDIR None (Inr (S_IFDIR, 4096))
              (Some [(''a.txt'', plain_file 10), (''locked'', unreadable_dir), (''c'', c_tree)])"
    by (simp add: locked_root_def plain_dir_def)
  have h5: "unreadable_as_empty unreadable_dir = plain_dir []"
    by (simp add: unreadable_dir_def plain_dir_def)
  have pre: "list_files_and_folders_recursive ''/r''
               (Node S_IFDIR None (Inr (S_IFDIR, 4096)) (Some [(''a.txt'', plain_file 10)])) False =
             [Entry ''a.txt'' ''/r/a.txt'' File (Some 10) None]"
    by (simp add: example_defs os_defs)
  have post: "list_files_and_folders_recursive ''/r''
               (Node S_IFDIR None (Inr (S_IFDIR, 4096)) (Some [(''c'', c_tree)])) False =
             [Entry ''c'' ''/r/c'' Directory (Some 5)
                (Some [Entry ''d.txt'' ''/r/c/d.txt'' File (Some 5) None])]"
    by (simp add: example_defs os_defs)
  have sz: "get_size ''/r/locked'' unreadable_dir = Some 0"
    by (simp add: example_defs os_defs)
  have p: "os_path_join ''/r'' ''locked'' = ''/r/locked''"
    by (simp add: os_path_join_def)
  note t1 = scanner_outcome_and_unreadable_directories
      [where n = unreadable_dir and root = "''/r/locked''" and fo = False]
  note t = scanner_outcome_and_unreadable_directories
      [where d = unreadable_dir and pre = "[(''a.txt'', plain_file 10)]" and root = "''/r''"
         and t = S_IFDIR and l = None and s = "Inr (S_IFDIR, 4096)" and nm = "''locked''"
         and post = "[(''c'', c_tree)]" and fo = False and n = locked_root and k = 2]
  note u = scanner_outcome_and_unreadable_directories
      [where root = "''/r''" and fo = False and n = locked_root and k = 1]
  note w = scanner_outcome_and_unreadable_directories
      [where root = null_path and fo = False and n = locked_root and k = 2]
  from t1 h1 have g1: "list_files_and_folders_recursive ''/r/locked'' unreadable_dir False = []"
    by blast
  from t1 have "list_files_and_folders_recursive ''/r/locked'' (unreadable_as_empty unreadable_dir) False =
                list_files_and_folders_recursive ''/r/locked'' unreadable_dir False"
    by blast
  then have g3: "list_files_and_folders_recursive ''/r/locked'' (plain_dir []) False = []"
    by (simp only: h5 g1)
  from t h1 h2 h3 have
    "list_files_and_folders_recursive ''/r''
       (Node S_IFDIR None (Inr (S_IFDIR, 4096))
          (Some ([(''a.txt'', plain_file 10)] @ (''locked'', unreadable_dir) # [(''c'', c_tree)]))) False =
     list_files_and_folders_recursive ''/r''
       (Node S_IFDIR None (Inr (S_IFDIR, 4096)) (Some [(''a.txt'', plain_file 10)])) False
     @ Entry ''locked'' (os_path_join ''/r'' ''locked'') Directory
         (get_size (os_path_join ''/r'' ''locked'') unreadable_dir) (Some [])
     # list_files_and_folders_recursive ''/r''
         (Node S_IFDIR None (Inr (S_IFDIR, 4096)) (Some [(''c'', c_tree)])) False"
    by blast
  then have g2: "list_files_and_folders_recursive ''/r'' locked_root False =
       [Entry ''a.txt'' ''/r/a.txt'' File (Some 10) None,
        Entry ''locked'' ''/r/locked'' Directory (Some 0) (Some []),
        Entry ''c'' ''/r/c'' Directory (Some 5)
          (Some [Entry ''d.txt'' ''/r/c/d.txt'' File (Some 5) None])]"
    by (simp only: h4 pre post p sz append_Cons append_Nil)
  from t e1 e2 have "list_files_and_folders_recursive_run 2 ''/r'' locked_root False =
        (if scan_frames locked_root \<le> 2
         then Inr (list_files_and_folders_recursive ''/r'' locked_root False)
         else Inl RecursionError)"
    by blast
  then have g4: "list_files_and_folders_recursive_run 2 ''/r'' locked_root False =
       Inr [Entry ''a.txt'' ''/r/a.txt'' File (Some 10) None,
            Entry ''locked'' ''/r/locked'' Directory (Some 0) (Some []),
            Entry ''c'' ''/r/c'' Directory (Some 5)
              (Some [Entry ''d.txt'' ''/r/c/d.txt'' File (Some 5) None])]"
    by (simp add: e3 g2)
  from u e1 e2 have "list_files_and_folders_recursive_run 1 ''/r'' locked_root False =
        (if scan_frames locked_root \<le> 1
         then Inr (list_files_and_folders_recursive ''/r'' locked_root False)
         else Inl RecursionError)"
    by blast
  then have g5: "list_files_and_folders_recursive_run 1 ''/r'' locked_root False = Inl RecursionError"
    by (simp add: e3)
  from w e4 e5 have g6: "list_files_and_folders_recursive_run 2 null_path locked_root False = Inl ValueError"
    by blast
  show ?thesis
    using e1 e2 e3 g4 g5 e4 e5 g6 h1 h2 h3 g1 g2 h5 g3 by (simp only: simp_thms)
qed

subsection \<open>Sizes and the \<^verbatim>\<open>folders_only\<close> flag\<close>

text \<open>
  C3. In a tree of regular files and directories only, with no failing call,
  \<^verbatim>\<open>get_size\<close> of a directory is the sum of the sizes of all files below it, and the
  size the scanner records for every directory below the root, at every depth, is
  that sum. A directory that is such a tree is recorded with that sum whatever its
  siblings are, as long as the loop reaches it.
\<close>

theorem regular_directory_size_is_sum_of_files:
  "regular_tree n \<Longrightarrow>
   get_size path n = Some (tree_size n)
   \<and> dir_sizes (list_files_and_folders_recursive root n fo) =
       map (\<lambda>(p, d). (p, Some (tree_size d))) (subdirs root n)
   \<and> (d_type n = S_IFDIR \<and> \<not> raises_is_dir pre \<longrightarrow>
        list_files_and_folders_recursive root (Node t l s (Some (pre @ (nm, n) # post))) fo =
          list_files_and_folders_recursive root (Node t l s (Some pre)) fo
          @ Entry nm (os_path_join root nm) Directory (Some (tree_size n))
              (Some (list_files_and_folders_recursive (os_path_join root nm) n fo))
          # list_files_and_folders_recursive root (Node t l s (Some post)) fo)"
proof -
  assume r: "regular_tree n"
  have c: "d_type n = S_IFDIR \<and> \<not> raises_is_dir pre \<longrightarrow>
        list_files_and_folders_recursive root (Node t l s (Some (pre @ (nm, n) # post))) fo =
          list_files_and_folders_recursive root (Node t l s (Some pre)) fo
          @ Entry nm (os_path_join root nm) Directory (Some (tree_size n))
              (Some (list_files_and_folders_recursive (os_path_join root nm) n fo))
          # list_files_and_folders_recursive root (Node t l s (Some post)) fo"
    using scan_split [of pre n True root t l s nm post fo]
      scan_loop_Cons_dir [of n root fo nm "[]"]
      regular_tree_cases(2) [OF r] get_size_regular [OF r, of "os_path_join root nm"]
    by simp
  show ?thesis
    using get_size_regular [OF r, of path] dir_sizes_regular(1) [OF r, of root fo] c
    by blast
qed

theorem regular_directory_size_is_sum_of_files_witness:
  "regular_tree regular_root
   \<and> tree_size regular_root = 10 + 0 + 5 + 3
   \<and> get_size ''/r'' regular_root = Some 18
   \<and> dir_sizes (list_files_and_folders_recursive ''/r'' regular_root False) =
       [(''/r/b'', Some 0), (''/r/c'', Some 5)]
   \<and> regular_tree c_tree \<and> d_type c_tree = S_IFDIR
   \<and> \<not> raises_is_dir [(''a.txt'', plain_file 10), (''locked'', unreadable_dir)]
   \<and> list_files_and_folders_recursive ''/r'' locked_root False =
       [Entry ''a.txt'' ''/r/a.txt'' File (Some 10) None,
        Entry ''locked'' ''/r/locked'' Directory (Some 0) (Some []),
        Entry ''c'' ''/r/c'' Directory (Some 5)
          (Some [Entry ''d.txt'' ''/r/c/d.txt'' File (Some 5) None])]"
proof -
  have r: "regular_tree regular_root"
    by (simp add: example_defs)
  have ts: "tree_size regular_root = 18"
    by (simp add: example_defs)
  have sd: "subdirs ''/r'' regular_root = [(''/r/b'', plain_dir []), (''/r/c'', c_tree)]"
    by (simp add: example_defs os_path_join_def)
  have tk: "tree_size (plain_dir []) = 0" "tree_size c_tree = 5"
    by (simp_all add: example_defs)
  have rc: "regular_tree c_tree" and dc: "d_type c_tree = S_IFDIR"
    by (simp_all add: example_defs)
  have nr: "\<not> raises_is_dir [(''a.txt'', plain_file 10), (''locked'', unreadable_dir)]"
    by (simp add: raises_is_dir_def example_defs is_dir_def)
  have lr: "locked_root = Node S_IFDIR None (Inr (S_IFDIR, 4096))
              (Some [(''a.txt'', plain_file 10), (''locked'', unreadable_dir), (''c'', c_tree)])"
    by (simp add: locked_root_def plain_dir_def)
  have pre: "list_files_and_folders_recursive ''/r''
               (Node S_IFDIR None (Inr (S_IFDIR, 4096))
                  (Some [(''a.txt'', plain_file 10), (''locked'', unreadable_dir)])) False =
             [Entry ''a.txt'' ''/r/a.txt'' File (Some 10) None,
              Entry ''locked'' ''/r/locked'' Directory (Some 0) (Some [])]"
    by (simp add: example_defs os_defs)
  have post: "list_files_and_folders_recursive ''/r''
               (Node S_IFDIR None (Inr (S_IFDIR, 4096)) (Some [])) False = []"
    by simp
  have inner: "list_files_and_folders_recursive ''/r/c'' c_tree False =
                 [Entry ''d.txt'' ''/r/c/d.txt'' File (Some 5) None]"
    by (simp add: example_defs os_defs)
  have p: "os_path_join ''/r'' ''c'' = ''/r/c''"
    by (simp add: os_path_join_def)
  note t = regular_directory_size_is_sum_of_files
      [OF rc, where pre = "[(''a.txt'', plain_file 10), (''locked'', unreadable_dir)]"
         and root = "''/r''" and t = S_IFDIR and l = None and s = "Inr (S_IFDIR, 4096)"
         and nm = "''c''" and post = "[]" and fo = False]
  from t dc nr have
    "list_files_and_folders_recursive ''/r''
       (Node S_IFDIR None (Inr (S_IFDIR, 4096))
          (Some ([(''a.txt'', plain_file 10), (''locked'', unreadable_dir)] @ (''c'', c_tree) # []))) False =
     list_files_and_folders_recursive ''/r''
       (Node S_IFDIR None (Inr (S_IFDIR, 4096))
          (Some [(''a.txt'', plain_file 10), (''locked'', unreadable_dir)])) False
     @ Entry ''c'' (os_path_join ''/r'' ''c'') Directory (Some (tree_size c_tree))
         (Some (list_files_and_folders_recursive (os_path_join ''/r'' ''c'') c_tree False))
     # list_files_and_folders_recursive ''/r''
         (Node S_IFDIR None (Inr (S_IFDIR, 4096)) (Some [])) False"
    by blast
  then have g: "list_files_and_folders_recursive ''/r'' locked_root False =
       [Entry ''a.txt'' ''/r/a.txt'' File (Some 10) None,
        Entry ''locked'' ''/r/locked'' Directory (Some 0) (Some []),
        Entry ''c'' ''/r/c'' Directory (Some 5)
          (Some [Entry ''d.txt'' ''/r/c/d.txt'' File (Some 5) None])]"
    by (simp only: lr pre post inner p tk append_Cons append_Nil)
  have "get_size ''/r'' regular_root = Some 18
        \<and> dir_sizes (list_files_and_folders_recursive ''/r'' regular_root False) =
            [(''/r/b'', Some 0), (''/r/c'', Some 5)]"
    using regular_directory_size_is_sum_of_files [OF r, of "''/r''" "''/r''" False]
    by (simp add: ts sd tk)
  then show ?thesis
    using r ts rc dc nr g by simp
qed

text \<open>
  C8. With \<^verbatim>\<open>folders_only\<close> the output holds directory entries only, at every depth; it
  is the output without \<^verbatim>\<open>folders_only\<close> with every file entry removed and nothing else
  changed.
\<close>

theorem folders_only_lists_directories_only:
  "list_all dirs_only (list_files_and_folders_recursive root n True)
   \<and> list_files_and_folders_recursive root n True =
       prune_files (list_files_and_folders_recursive root n False)"
  using dirs_only_scan(1) [of True root n] prune_scan(1) [of root n] by simp

theorem folders_only_lists_directories_only_witness:
  "list_files_and_folders_recursive ''/r'' regular_root False =
     [Entry ''a.txt'' ''/r/a.txt'' File (Some 10) None,
      Entry ''b'' ''/r/b'' Directory (Some 0) (Some []),
      Entry ''c'' ''/r/c'' Directory (Some 5)
        (Some [Entry ''d.txt'' ''/r/c/d.txt'' File (Some 5) None]),
      Entry ''e.txt'' ''/r/e.txt'' File (Some 3) None]
   \<and> list_files_and_folders_recursive ''/r'' regular_root True =
       [Entry ''b'' ''/r/b'' Directory (Some 0) (Some []),
        Entry ''c'' ''/r/c'' Directory (Some 5) (Some [])]
   \<and> list_all dirs_only (list_files_and_folders_recursive ''/r'' regular_root True)"
proof -
  note t = folders_only_lists_directories_only [of "''/r''" regular_root]
  have d: "list_all dirs_only (list_files_and_folders_recursive ''/r'' regular_root True)"
    using t by (rule conjunct1)
  have "list_files_and_folders_recursive ''/r'' regular_root True =
          prune_files (list_files_and_folders_recursive ''/r'' regular_root False)"
    using t by (rule conjunct2)
  then have "list_files_and_folders_recursive ''/r'' regular_root True =
       [Entry ''b'' ''/r/b'' Directory (Some 0) (Some []),
        Entry ''c'' ''/r/c'' Directory (Some 5) (Some [])]"
    by (simp add: scan_regular_root prune_files_def)
  then show ?thesis
    using d scan_regular_root by simp
qed

text \<open>
  C10. The scans with and without \<^verbatim>\<open>folders_only\<close> list the same directories, in the
  same order, each with the same size: the flag decides which entries are listed, not
  the sizes.
\<close>

theorem directory_sizes_do_not_depend_on_folders_only:
  "dir_sizes (list_files_and_folders_recursive root n True) =
     dir_sizes (list_files_and_folders_recursive root n False)"
  by (rule dir_sizes_scan(1))

theorem directory_sizes_do_not_depend_on_folders_only_witness:
  "dir_sizes (list_files_and_folders_recursive ''/r'' unsearchable_root True) = [(''/r/d'', None)]
   \<and> dir_sizes (list_files_and_folders_recursive ''/r'' unsearchable_root False) = [(''/r/d'', None)]
   \<and> dir_sizes (list_files_and_folders_recursive ''/r'' regular_root True) =
       [(''/r/b'', Some 0), (''/r/c'', Some 5)]
   \<and> dir_sizes (list_files_and_folders_recursive ''/r'' regular_root False) =
       [(''/r/b'', Some 0), (''/r/c'', Some 5)]"
  using directory_sizes_do_not_depend_on_folders_only [of "''/r''" unsearchable_root]
    directory_sizes_do_not_depend_on_folders_only [of "''/r''" regular_root]
  by (simp add: scan_unsearchable_root scan_regular_root dir_sizes_def)


section \<open>Properties of the transformer\<close>

lemma transform_loop_acc:
  "transform_loop data acc = acc @ transform_loop data []"
proof (induction data arbitrary: acc)
  case Nil
  show ?case by simp
next
  case (Cons item rest)
  obtain nm path ty sz cont where item: "item = Entry nm path ty sz cont"
    by (cases item)
  show ?case
  proof (cases cont)
    case None
    show ?thesis
      using Cons.IH [of "acc @ [x]" for x] Cons.IH [of "[x]" for x]
      by (simp add: item None)
  next
    case (Some cs)
    show ?thesis
    proof (cases cs)
      case Nil
      show ?thesis
        using Cons.IH [of "acc @ [x]" for x] Cons.IH [of "[x]" for x]
        by (simp add: item Some Nil)
    next
      case (Cons c cs')
      show ?thesis
        using Cons.IH [of "acc @ [x]" for x] Cons.IH [of "[x]" for x]
        by (simp add: item Some Cons)
    qed
  qed
qed

lemma transform_loop_leaf:
  "e_contents item = None \<or> e_contents item = Some [] \<Longrightarrow>
   transform_loop [item] [] =
     [VNode (e_path item) None (Some (case e_size item of None \<Rightarrow> 0 | Some k \<Rightarrow> k))]"
  by (cases item) (auto split: option.splits)

lemma transform_loop_branch:
  "e_contents item = Some cs \<Longrightarrow> cs \<noteq> [] \<Longrightarrow>
   transform_loop [item] [] = [VNode (e_path item) (Some (transform_loop cs [])) None]"
  by (cases item; cases cs) auto

lemma transform_loop_Cons:
  "transform_loop (item # rest) [] = transform_loop [item] [] @ transform_loop rest []"
proof (cases "e_contents item = None \<or> e_contents item = Some []")
  case True
  then show ?thesis
    using transform_loop_acc [of rest "[x]" for x]
    by (cases item) (auto split: option.splits)
next
  case False
  then obtain c cs where "e_contents item = Some (c # cs)"
    by (cases "e_contents item"; cases "the (e_contents item)") auto
  then show ?thesis
    using transform_loop_acc [of rest "[x]" for x]
    by (cases item) auto
qed

lemma transform_loop_append:
  "transform_loop (xs @ ys) [] = transform_loop xs [] @ transform_loop ys []"
proof (induction xs)
  case Nil
  show ?case by simp
next
  case (Cons item rest)
  show ?case
    using transform_loop_Cons [of item "rest @ ys"] transform_loop_Cons [of item rest] Cons.IH
    by simp
qed

lemma transform_loop_length: "length (transform_loop data []) = length data"
proof (induction data)
  case Nil
  show ?case by simp
next
  case (Cons item rest)
  have "length (transform_loop [item] []) = 1"
  proof (cases "e_contents item = None \<or> e_contents item = Some []")
    case True
    then show ?thesis by (simp add: transform_loop_leaf)
  next
    case False
    then obtain cs where "e_contents item = Some cs" "cs \<noteq> []" by auto
    then show ?thesis by (simp add: transform_loop_branch)
  qed
  then show ?case
    using transform_loop_Cons [of item rest] Cons.IH by simp
qed

lemma exactly_one_transform:
  "exactly_one (transform_for_d3_sunburst data parent_name)"
  "list_all exactly_one children \<Longrightarrow> list_all exactly_one (transform_loop data children)"
  by (induction data parent_name and data children
      rule: transform_for_d3_sunburst_transform_loop.induct) simp_all

text \<open>
  C4. Every node of the tree the transformer returns has exactly one of the keys
  \<^verbatim>\<open>"children"\<close> and \<^verbatim>\<open>"value"\<close>, and the root of the tree is a branch node (it has
  \<^verbatim>\<open>"children"\<close> and no \<^verbatim>\<open>"value"\<close>) whose name is the root name passed in.
\<close>

theorem transform_exactly_one_of_children_value:
  "exactly_one (transform_for_d3_sunburst data root)
   \<and> v_name (transform_for_d3_sunburst data root) = root
   \<and> v_children (transform_for_d3_sunburst data root) \<noteq> None
   \<and> v_value (transform_for_d3_sunburst data root) = None"
  using exactly_one_transform(1) [of data root] by simp

theorem transform_exactly_one_of_children_value_witness:
  "transform_for_d3_sunburst [a_txt, b_dir, c_dir, u_dir] ''/r'' =
     VNode ''/r''
       (Some [VNode ''/r/a.txt'' None (Some 10),
              VNode ''/r/b'' None (Some 0),
              VNode ''/r/c'' (Some [VNode ''/r/c/d.txt'' None (Some 5)]) None,
              VNode ''/r/u'' None (Some 0)])
       None
   \<and> exactly_one (transform_for_d3_sunburst [a_txt, b_dir, c_dir, u_dir] ''/r'')
   \<and> v_name (transform_for_d3_sunburst [a_txt, b_dir, c_dir, u_dir] ''/r'') = ''/r''"
  using transform_exactly_one_of_children_value [of "[a_txt, b_dir, c_dir, u_dir]" "''/r''"]
  by (simp add: a_txt_def b_dir_def c_dir_def d_txt_def u_dir_def)

lemma transform_run_outcome:
  "transform_for_d3_sunburst_run k data parent_name =
     (if transform_frames data \<le> k then Inr (transform_for_d3_sunburst data parent_name)
      else Inl RecursionError)"
  "transform_loop_run k data children =
     (if transform_loop_frames data \<le> k then Inr (transform_loop data children)
      else Inl RecursionError)"
proof (induction k data parent_name and k data children
      rule: transform_for_d3_sunburst_run_transform_loop_run.induct)
  case (1 data parent_name)
  show ?case by simp
next
  case (2 k data parent_name)
  then show ?case by simp
next
  case (3 k children)
  show ?case by simp
next
  case (4 k nm path ty sz c cs rest children)
  show ?case
  proof (cases "transform_frames (c # cs) \<le> k")
    case True
    then have sr: "transform_for_d3_sunburst_run k (c # cs) path =
        Inr (transform_for_d3_sunburst (c # cs) path)"
      using "4.IH"(1) by simp
    show ?thesis
      using "4.IH"(2) [OF sr] True by (simp add: sr)
  next
    case False
    then show ?thesis using "4.IH"(1) by simp
  qed
qed simp_all

lemma nested_entries_single: "\<exists>e. nested_entries p k = [e]"
  by (cases k) simp_all

lemma transform_frames_nested: "transform_frames (nested_entries p k) = Suc k"
proof (induction k arbitrary: p)
  case 0
  show ?case by simp
next
  case (Suc k)
  obtain e where e: "nested_entries (os_path_join p ''d'') k = [e]"
    using nested_entries_single by blast
  show ?case
    using Suc.IH [of "os_path_join p ''d''"] by (simp add: e)
qed

text \<open>
  The transformer fails on a well-formed sequence: for a chain of 1000 nested
  directories it needs 1001 nested activations, and with 1000 left it raises
  \<^verbatim>\<open>RecursionError\<close>.
\<close>

theorem transform_raises_RecursionError_on_deep_nesting:
  "transform_frames (nested_entries ''/r'' 1000) = 1001
   \<and> transform_for_d3_sunburst_run 1000 (nested_entries ''/r'' 1000) ''/r'' = Inl RecursionError"
  by (simp add: transform_run_outcome(1) transform_frames_nested del: transform_frames.simps)

text \<open>
  C5, as the code has it. The transformer returns a result exactly when the nesting
  of its input needs no more nested activations than the recursion limit allows, and
  it raises \<^verbatim>\<open>RecursionError\<close> otherwise. The result is a branch node with the given
  root name and one child per entry; on the empty sequence, with one activation
  allowed, it is the branch node with the given root name and an empty child
  sequence.
\<close>

theorem transform_returns_within_recursion_limit:
  "transform_for_d3_sunburst_run k data root =
     (if transform_frames data \<le> k then Inr (transform_for_d3_sunburst data root)
      else Inl RecursionError)
   \<and> (\<exists>kids. transform_for_d3_sunburst data root = VNode root (Some kids) None
              \<and> length kids = length data)
   \<and> (0 < k \<longrightarrow> transform_for_d3_sunburst_run k [] root = Inr (VNode root (Some []) None))"
proof -
  have a: "transform_for_d3_sunburst_run k data root =
     (if transform_frames data \<le> k then Inr (transform_for_d3_sunburst data root)
      else Inl RecursionError)"
    by (rule transform_run_outcome(1))
  have b: "\<exists>kids. transform_for_d3_sunburst data root = VNode root (Some kids) None
              \<and> length kids = length data"
    by (simp add: transform_loop_length)
  have c: "0 < k \<longrightarrow> transform_for_d3_sunburst_run k [] root = Inr (VNode root (Some []) None)"
    by (cases k) simp_all
  show ?thesis
    using a b c by blast
qed

theorem transform_returns_within_recursion_limit_witness:
  "transform_frames [a_txt, b_dir, c_dir, u_dir] = 2
   \<and> transform_for_d3_sunburst_run 2 [a_txt, b_dir, c_dir, u_dir] ''/r'' =
       Inr (VNode ''/r''
              (Some [VNode ''/r/a.txt'' None (Some 10),
                     VNode ''/r/b'' None (Some 0),
                     VNode ''/r/c'' (Some [VNode ''/r/c/d.txt'' None (Some 5)]) None,
                     VNode ''/r/u'' None (Some 0)])
              None)
   \<and> transform_for_d3_sunburst_run 1 [a_txt, b_dir, c_dir, u_dir] ''/r'' = Inl RecursionError
   \<and> (0::nat) < 1
   \<and> transform_for_d3_sunburst_run 1 [] ''/r'' = Inr (VNode ''/r'' (Some []) None)"
proof -
  have f: "transform_frames [a_txt, b_dir, c_dir, u_dir] = 2"
    by (simp add: a_txt_def b_dir_def c_dir_def d_txt_def u_dir_def)
  have v: "transform_for_d3_sunburst [a_txt, b_dir, c_dir, u_dir] ''/r'' =
       VNode ''/r''
              (Some [VNode ''/r/a.txt'' None (Some 10),
                     VNode ''/r/b'' None (Some 0),
                     VNode ''/r/c'' (Some [VNode ''/r/c/d.txt'' None (Some 5)]) None,
                     VNode ''/r/u'' None (Some 0)])
              None"
    by (simp add: a_txt_def b_dir_def c_dir_def d_txt_def u_dir_def)
  note t2 = transform_returns_within_recursion_limit
      [where k = 2 and data = "[a_txt, b_dir, c_dir, u_dir]" and root = "''/r''"]
  note t1 = transform_returns_within_recursion_limit
      [where k = 1 and data = "[a_txt, b_dir, c_dir, u_dir]" and root = "''/r''"]
  from t2 have g2: "transform_for_d3_sunburst_run 2 [a_txt, b_dir, c_dir, u_dir] ''/r'' =
      Inr (transform_for_d3_sunburst [a_txt, b_dir, c_dir, u_dir] ''/r'')"
    by (simp add: f del: transform_frames.simps)
  from t1 have g1: "transform_for_d3_sunburst_run 1 [a_txt, b_dir, c_dir, u_dir] ''/r'' =
      Inl RecursionError"
    by (simp add: f del: transform_frames.simps)
  from t1 have g0: "transform_for_d3_sunburst_run 1 [] ''/r'' = Inr (VNode ''/r'' (Some []) None)"
    by simp
  have g2': "transform_for_d3_sunburst_run 2 [a_txt, b_dir, c_dir, u_dir] ''/r'' =
       Inr (VNode ''/r''
              (Some [VNode ''/r/a.txt'' None (Some 10),
                     VNode ''/r/b'' None (Some 0),
                     VNode ''/r/c'' (Some [VNode ''/r/c/d.txt'' None (Some 5)]) None,
                     VNode ''/r/u'' None (Some 0)])
              None)"
    using g2 by (simp only: v)
  have p: "(0::nat) < 1"
    by simp
  show ?thesis
    using f g2' g1 p g0 by (simp only: simp_thms)
qed

text \<open>
  C6. An entry that is a directory with an empty \<^verbatim>\<open>contents\<close> list becomes, at its
  place among the children, a leaf node: no \<^verbatim>\<open>"children"\<close>, the entry's path as name,
  and as value the entry's size, or 0 when the size is \<^verbatim>\<open>None\<close>. The output is the same
  as for a file entry with that path and size.
\<close>

theorem transform_empty_directory_is_leaf:
  "e_contents item = Some [] \<Longrightarrow>
   transform_for_d3_sunburst (pre @ item # post) root =
     VNode root
       (Some (transform_loop pre [] @
              VNode (e_path item) None (Some (case e_size item of None \<Rightarrow> 0 | Some k \<Rightarrow> k)) #
              transform_loop post []))
       None
   \<and> transform_for_d3_sunburst (pre @ item # post) root =
       transform_for_d3_sunburst
         (pre @ Entry (e_name item) (e_path item) File (e_size item) None # post) root"
  using transform_loop_append [of pre "item # post"] transform_loop_Cons [of item post]
    transform_loop_append [of pre "Entry (e_name item) (e_path item) File (e_size item) None # post"]
    transform_loop_Cons [of "Entry (e_name item) (e_path item) File (e_size item) None" post]
    transform_loop_leaf [of item]
    transform_loop_leaf [of "Entry (e_name item) (e_path item) File (e_size item) None"]
  by simp

theorem transform_empty_directory_is_leaf_witness:
  "e_contents u_dir = Some []
   \<and> transform_for_d3_sunburst ([a_txt] @ u_dir # [c_dir]) ''/r'' =
       VNode ''/r''
         (Some (transform_loop [a_txt] [] @ VNode ''/r/u'' None (Some 0) # transform_loop [c_dir] []))
         None
   \<and> e_contents b_dir = Some []
   \<and> transform_for_d3_sunburst ([] @ b_dir # []) ''/r'' =
       VNode ''/r'' (Some [VNode ''/r/b'' None (Some 0)]) None"
proof -
  have u: "e_contents u_dir = Some []" and b: "e_contents b_dir = Some []"
    by (simp_all add: u_dir_def b_dir_def)
  have pu: "e_path u_dir = ''/r/u''" "e_size u_dir = None"
    and pb: "e_path b_dir = ''/r/b''" "e_size b_dir = Some 0"
    by (simp_all add: u_dir_def b_dir_def)
  show ?thesis
    using u b
      transform_empty_directory_is_leaf [OF u, of "[a_txt]" "[c_dir]" "''/r''"]
      transform_empty_directory_is_leaf [OF b, of "[]" "[]" "''/r''"]
    by (simp add: pu pb)
qed

text \<open>
  C7. An entry that is a directory with a non-empty \<^verbatim>\<open>contents\<close> list becomes, at its
  place among the children (after the nodes of the entries before it, before the nodes
  of the entries after it, one node per entry), a branch node: the transformation of
  its contents with the directory's path as root name, so its name is that path and
  its children are the nodes of its contents.
\<close>

theorem transform_directory_is_branch:
  "e_contents item = Some cs \<Longrightarrow> cs \<noteq> [] \<Longrightarrow>
   v_children (transform_for_d3_sunburst (pre @ item # post) root) =
     Some (transform_loop pre [] @
           transform_for_d3_sunburst cs (e_path item) #
           transform_loop post [])
   \<and> length (transform_loop pre []) = length pre
   \<and> length (transform_loop post []) = length post
   \<and> v_name (transform_for_d3_sunburst cs (e_path item)) = e_path item
   \<and> v_children (transform_for_d3_sunburst cs (e_path item)) = Some (transform_loop cs [])
   \<and> v_value (transform_for_d3_sunburst cs (e_path item)) = None"
  using transform_loop_append [of pre "item # post"] transform_loop_Cons [of item post]
    transform_loop_branch [of item cs]
  by (simp add: transform_loop_length)

theorem transform_directory_is_branch_witness:
  "e_contents c_dir = Some [d_txt] \<and> [d_txt] \<noteq> []
   \<and> v_children (transform_for_d3_sunburst ([a_txt, b_dir] @ c_dir # [u_dir]) ''/r'') =
       Some (transform_loop [a_txt, b_dir] [] @
             VNode ''/r/c'' (Some [VNode ''/r/c/d.txt'' None (Some 5)]) None #
             transform_loop [u_dir] [])"
proof -
  have c: "e_contents c_dir = Some [d_txt]" and ne: "[d_txt] \<noteq> []"
    by (simp_all add: c_dir_def)
  have p: "e_path c_dir = ''/r/c''"
    by (simp add: c_dir_def)
  have t: "transform_for_d3_sunburst [d_txt] ''/r/c'' =
             VNode ''/r/c'' (Some [VNode ''/r/c/d.txt'' None (Some 5)]) None"
    by (simp add: d_txt_def)
  show ?thesis
    using c ne transform_directory_is_branch [OF c ne, of "[a_txt, b_dir]" "[u_dir]" "''/r''"]
    by (simp only: p t) simp
qed

end
